theory Spec2Isabelle
  imports Complex_Main "HOL-Library.Sublist"
begin

section \<open>Python strings\<close>

text \<open>
  A Python \<open>str\<close> is a sequence of Unicode code points. The code points 0..255 are the
  8-bit characters of HOL, and for them the character tests are written out below as
  Python has them: \<open>str.isspace\<close> (also the regular-expression class \<open>\s\<close>),
  \<open>str.lower\<close>, the class \<open>\w\<close> (\<open>str.isalnum\<close> or the underscore) and the class
  \<open>\d\<close>. A code point above 255 comes with what Python's Unicode database says of it;
  the type \<open>pychar\<close> and the tests on it follow the tables.
\<close>

definition code :: "char \<Rightarrow> nat" where
  "code c = of_char c"

definition spaces :: "char list" where
  "spaces = [CHR 0x20, CHR 0x09, CHR 0x0A, CHR 0x0B, CHR 0x0C, CHR 0x0D,
             CHR 0x1C, CHR 0x1D, CHR 0x1E, CHR 0x1F, CHR 0x85, CHR 0xA0]"

definition is_space :: "char \<Rightarrow> bool" where
  "is_space c = (c \<in> set spaces)"

definition az :: "char list" where
  "az = ''abcdefghijklmnopqrstuvwxyz''"

definition AZ :: "char list" where
  "AZ = ''ABCDEFGHIJKLMNOPQRSTUVWXYZ''"

definition d09 :: "char list" where
  "d09 = ''0123456789''"

text \<open>The letters of \<open>0xC0..0xDE\<close> and \<open>0xE0..0xFE\<close>; \<open>0xD7\<close> and \<open>0xF7\<close> are the
  multiplication and division signs.\<close>

definition latin_uppers :: "char list" where
  "latin_uppers =
     [CHR 0xC0, CHR 0xC1, CHR 0xC2, CHR 0xC3, CHR 0xC4, CHR 0xC5, CHR 0xC6, CHR 0xC7,
      CHR 0xC8, CHR 0xC9, CHR 0xCA, CHR 0xCB, CHR 0xCC, CHR 0xCD, CHR 0xCE, CHR 0xCF,
      CHR 0xD0, CHR 0xD1, CHR 0xD2, CHR 0xD3, CHR 0xD4, CHR 0xD5, CHR 0xD6,
      CHR 0xD8, CHR 0xD9, CHR 0xDA, CHR 0xDB, CHR 0xDC, CHR 0xDD, CHR 0xDE]"

definition latin_lowers :: "char list" where
  "latin_lowers =
     [CHR 0xE0, CHR 0xE1, CHR 0xE2, CHR 0xE3, CHR 0xE4, CHR 0xE5, CHR 0xE6, CHR 0xE7,
      CHR 0xE8, CHR 0xE9, CHR 0xEA, CHR 0xEB, CHR 0xEC, CHR 0xED, CHR 0xEE, CHR 0xEF,
      CHR 0xF0, CHR 0xF1, CHR 0xF2, CHR 0xF3, CHR 0xF4, CHR 0xF5, CHR 0xF6,
      CHR 0xF8, CHR 0xF9, CHR 0xFA, CHR 0xFB, CHR 0xFC, CHR 0xFD, CHR 0xFE]"

definition is_upper :: "char \<Rightarrow> bool" where
  "is_upper c = (c \<in> set (AZ @ latin_uppers))"

text \<open>An upper-case letter and its lower-case partner are 32 apart: bit 5 of the code is
  clear in the one and set in the other.\<close>

fun with_bit5 :: "bool \<Rightarrow> char \<Rightarrow> char" where
  "with_bit5 b (Char b0 b1 b2 b3 b4 b5 b6 b7) = Char b0 b1 b2 b3 b4 b b6 b7"

text \<open>\<open>str.lower\<close> on one character.\<close>

definition lower_char :: "char \<Rightarrow> char" where
  "lower_char c = (if is_upper c then with_bit5 True c else c)"

text \<open>The simple upper-case mapping the regular-expression engine uses under
  IGNORECASE. The upper-case partners of \<open>0xB5\<close> and \<open>0xFF\<close> lie beyond code point 255
  and \<open>0xDF\<close> has none, so these three stay; none of them is an ASCII character.\<close>

definition upper_char :: "char \<Rightarrow> char" where
  "upper_char c = (if c \<in> set (az @ latin_lowers) then with_bit5 False c else c)"

definition is_digit :: "char \<Rightarrow> bool" where
  "is_digit c = (c \<in> set d09)"

text \<open>\<open>str.isalnum\<close>: the letters and digits above and, in \<open>0x80..0xFF\<close>, the two ordinal
  indicators, the micro sign, the superscript digits, the three fractions, \<open>0xDF\<close> and
  \<open>0xFF\<close>.\<close>

definition is_alnum :: "char \<Rightarrow> bool" where
  "is_alnum c = (c \<in> set (az @ d09 @ AZ @ latin_lowers @ latin_uppers @
     [CHR 0xAA, CHR 0xB2, CHR 0xB3, CHR 0xB5, CHR 0xB9, CHR 0xBA, CHR 0xBC, CHR 0xBD, CHR 0xBE,
      CHR 0xDF, CHR 0xFF]))"

definition is_word :: "char \<Rightarrow> bool" where
  "is_word c = (is_alnum c \<or> c = CHR ''_'')"

definition digit_char :: "nat \<Rightarrow> char" where
  "digit_char d = d09 ! d"

text \<open>\<open>str(n)\<close> on a natural number.\<close>

fun str_of_nat :: "nat \<Rightarrow> string" where
  "str_of_nat n = (if n < 10 then [digit_char n] else str_of_nat (n div 10) @ [digit_char (n mod 10)])"

declare str_of_nat.simps [simp del]

subsection \<open>Characters of any code point\<close>

text \<open>
  \<open>Lat c\<close> is the code point of the 8-bit character \<open>c\<close>. \<open>Wide n sp al de up ie lo\<close> is
  the code point \<open>n\<close> above 255 with its entries in the Unicode database as Python reads
  them: \<open>sp\<close> is \<open>str.isspace\<close>, \<open>al\<close> is \<open>str.isalnum\<close>, \<open>de\<close> the value of a decimal
  digit, \<open>up\<close> is \<open>str.isupper\<close>, \<open>ie\<close> lists the lower-case 8-bit characters the
  regular-expression engine takes it for under IGNORECASE (\<open>k\<close> for the Kelvin sign
  U+212A, \<open>s\<close> for the long s U+017F), and \<open>lo\<close> is what \<open>str.lower\<close> turns it into,
  \<open>None\<close> when it stays as it is.
\<close>

datatype pychar =
    Lat char
  | Wide int bool bool "nat option" bool "char list" "pychar list option"

type_synonym pystr = "pychar list"

text \<open>A string literal of the source, all of whose characters are below 256.\<close>

definition py :: "string \<Rightarrow> pystr" where
  "py s = map Lat s"

definition py_space :: "pychar \<Rightarrow> bool" where
  "py_space x = (case x of Lat c \<Rightarrow> is_space c | Wide n sp al de up ie lo \<Rightarrow> sp)"

definition py_word :: "pychar \<Rightarrow> bool" where
  "py_word x = (case x of Lat c \<Rightarrow> is_word c | Wide n sp al de up ie lo \<Rightarrow> al)"

definition py_digit :: "pychar \<Rightarrow> bool" where
  "py_digit x = (case x of Lat c \<Rightarrow> is_digit c | Wide n sp al de up ie lo \<Rightarrow> de \<noteq> None)"

definition py_upper :: "pychar \<Rightarrow> bool" where
  "py_upper x = (case x of Lat c \<Rightarrow> is_upper c | Wide n sp al de up ie lo \<Rightarrow> up)"

text \<open>\<open>str.lower()\<close>: character by character; one character can become several.\<close>

definition py_lower :: "pychar \<Rightarrow> pystr" where
  "py_lower x = (case x of
                   Lat c \<Rightarrow> [Lat (lower_char c)]
                 | Wide n sp al de up ie lo \<Rightarrow> (case lo of None \<Rightarrow> [x] | Some cs \<Rightarrow> cs))"

definition lower :: "pystr \<Rightarrow> pystr" where
  "lower s = concat (map py_lower s)"

text \<open>\<open>str.strip()\<close>: leading and trailing whitespace removed.\<close>

definition strip :: "pystr \<Rightarrow> pystr" where
  "strip s = rev (dropWhile py_space (rev (dropWhile py_space s)))"

text \<open>\<open>int(s)\<close> on a string of decimal digits.\<close>

definition digit_val :: "pychar \<Rightarrow> nat" where
  "digit_val x = (case x of
                    Lat c \<Rightarrow> code c - 48
                  | Wide n sp al de up ie lo \<Rightarrow> (case de of None \<Rightarrow> 0 | Some d \<Rightarrow> d))"

definition int_of_str :: "pystr \<Rightarrow> nat" where
  "int_of_str s = foldl (\<lambda>n c. 10 * n + digit_val c) 0 s"

section \<open>The regular expressions of Python's \<open>re\<close>\<close>

text \<open>
  The service matches with \<open>re.search\<close>, \<open>re.match\<close> and \<open>re.sub\<close>. Python's engine
  backtracks: alternatives are tried left to right, a greedy repetition tries the longest
  run first, a lazy one the shortest, and the first complete match in that order wins.
  The model lists every way a pattern can match from a position, in that order of
  preference; the head of the list is the match Python reports.
\<close>

text \<open>The parts of a character class: one character, a range (given by the characters it
  spans, so \<open>a-z\<close> is \<open>In az\<close>), \<open>\s\<close>, \<open>\w\<close>, \<open>\d\<close>.\<close>

datatype citem = Ch char | In "char list" | Space | Word | Digit

datatype re =
    Lit string          \<comment> \<open>a run of literal characters\<close>
  | Cls "citem list"    \<comment> \<open>\<open>[...]\<close>\<close>
  | NCls "citem list"   \<comment> \<open>\<open>[^...]\<close>\<close>
  | Dot                 \<comment> \<open>\<open>.\<close>: any character but the newline\<close>
  | Bol                 \<comment> \<open>\<open>^\<close>\<close>
  | Eol                 \<comment> \<open>\<open>$\<close>\<close>
  | Seq re re
  | Alt re re
  | Star re             \<comment> \<open>\<open>r*\<close>, greedy\<close>
  | Lazy re             \<comment> \<open>\<open>r*?\<close>\<close>
  | Opt re              \<comment> \<open>\<open>r?\<close>, greedy\<close>
  | Rep nat nat re      \<comment> \<open>\<open>r{m,n}\<close>, greedy\<close>
  | Grp re              \<comment> \<open>\<open>(r)\<close>, the capturing group 1\<close>

text \<open>A position of the matcher: the character just before it (none at the start of the
  string), the text still to read, and what group 1 has captured so far.\<close>

record mstate =
  prev :: "pychar option"
  rest :: pystr
  grp :: "pystr option"

definition nl :: char where
  "nl = CHR 0x0A"

text \<open>A pattern character \<open>c\<close> (every pattern of this program is written in characters
  below 256) against a character \<open>x\<close> of the text. Without IGNORECASE a character above
  255 equals none of them.\<close>

definition chr_eq :: "bool \<Rightarrow> char \<Rightarrow> pychar \<Rightarrow> bool" where
  "chr_eq ic c x =
     (case x of
        Lat y \<Rightarrow> (if ic then lower_char y = lower_char c else y = c)
      | Wide n sp al de up ie lo \<Rightarrow> ic \<and> lower_char c \<in> set ie)"

text \<open>Under IGNORECASE the engine lowers the subject character before it consults a class,
  and a range also accepts a character whose upper-case form lies in it.\<close>

fun item_match :: "bool \<Rightarrow> citem \<Rightarrow> pychar \<Rightarrow> bool" where
  "item_match ic (Ch c) x = chr_eq ic c x"
| "item_match ic (In cs) x =
     (case x of
        Lat y \<Rightarrow> (if ic then lower_char y \<in> set cs \<or> upper_char (lower_char y) \<in> set cs
                  else y \<in> set cs)
      | Wide n sp al de up ie lo \<Rightarrow> ic \<and> list_ex (\<lambda>e. e \<in> set cs \<or> upper_char e \<in> set cs) ie)"
| "item_match ic Space x =
     (case x of Lat y \<Rightarrow> is_space (if ic then lower_char y else y) | _ \<Rightarrow> py_space x)"
| "item_match ic Word x =
     (case x of Lat y \<Rightarrow> is_word (if ic then lower_char y else y) | _ \<Rightarrow> py_word x)"
| "item_match ic Digit x =
     (case x of Lat y \<Rightarrow> is_digit (if ic then lower_char y else y) | _ \<Rightarrow> py_digit x)"

definition cls_match :: "bool \<Rightarrow> citem list \<Rightarrow> pychar \<Rightarrow> bool" where
  "cls_match ic items x = list_ex (\<lambda>i. item_match ic i x) items"

definition step1 :: "(pychar \<Rightarrow> bool) \<Rightarrow> mstate \<Rightarrow> mstate list" where
  "step1 p st = (case rest st of [] \<Rightarrow> []
                 | c # cs \<Rightarrow> if p c then [st\<lparr>prev := Some c, rest := cs\<rparr>] else [])"

fun lit :: "bool \<Rightarrow> string \<Rightarrow> mstate \<Rightarrow> mstate list" where
  "lit ic [] st = [st]"
| "lit ic (c # cs) st = concat (map (lit ic cs) (step1 (chr_eq ic c) st))"

text \<open>Repetition. An iteration has to consume a character; with at most
  \<open>length (rest st)\<close> iterations left to make, the count \<open>n\<close> never runs out.\<close>

fun star :: "nat \<Rightarrow> (mstate \<Rightarrow> mstate list) \<Rightarrow> mstate \<Rightarrow> mstate list" where
  "star 0 f st = [st]"
| "star (Suc n) f st =
     concat (map (\<lambda>st'. if length (rest st') < length (rest st) then star n f st' else []) (f st))
     @ [st]"

fun lazy :: "nat \<Rightarrow> (mstate \<Rightarrow> mstate list) \<Rightarrow> mstate \<Rightarrow> mstate list" where
  "lazy 0 f st = [st]"
| "lazy (Suc n) f st =
     st # concat (map (\<lambda>st'. if length (rest st') < length (rest st) then lazy n f st' else []) (f st))"

fun times :: "nat \<Rightarrow> (mstate \<Rightarrow> mstate list) \<Rightarrow> mstate \<Rightarrow> mstate list" where
  "times 0 f st = [st]"
| "times (Suc n) f st = concat (map (times n f) (f st))"

fun upto :: "nat \<Rightarrow> (mstate \<Rightarrow> mstate list) \<Rightarrow> mstate \<Rightarrow> mstate list" where
  "upto 0 f st = [st]"
| "upto (Suc n) f st = concat (map (upto n f) (f st)) @ [st]"

definition capture :: "mstate \<Rightarrow> mstate \<Rightarrow> mstate" where
  "capture st st' = st'\<lparr>grp := Some (take (length (rest st) - length (rest st')) (rest st))\<rparr>"

text \<open>\<open>ms r ic ml st\<close>: the matches of \<open>r\<close> from \<open>st\<close>, best first; \<open>ic\<close> is IGNORECASE,
  \<open>ml\<close> is MULTILINE.\<close>

primrec ms :: "re \<Rightarrow> bool \<Rightarrow> bool \<Rightarrow> mstate \<Rightarrow> mstate list" where
  "ms (Lit cs) ic ml st = lit ic cs st"
| "ms (Cls items) ic ml st = step1 (cls_match ic items) st"
| "ms (NCls items) ic ml st = step1 (\<lambda>x. \<not> cls_match ic items x) st"
| "ms Dot ic ml st = step1 (\<lambda>x. x \<noteq> Lat nl) st"
| "ms Bol ic ml st = (if prev st = None \<or> (ml \<and> prev st = Some (Lat nl)) then [st] else [])"
| "ms Eol ic ml st =
     (if rest st = [] \<or> (ml \<and> hd (rest st) = Lat nl) \<or> (\<not> ml \<and> rest st = [Lat nl])
      then [st] else [])"
| "ms (Seq a b) ic ml st = concat (map (ms b ic ml) (ms a ic ml st))"
| "ms (Alt a b) ic ml st = ms a ic ml st @ ms b ic ml st"
| "ms (Star a) ic ml st = star (length (rest st)) (ms a ic ml) st"
| "ms (Lazy a) ic ml st = lazy (length (rest st)) (ms a ic ml) st"
| "ms (Opt a) ic ml st = ms a ic ml st @ [st]"
| "ms (Rep m n a) ic ml st = concat (map (upto (n - m) (ms a ic ml)) (times m (ms a ic ml) st))"
| "ms (Grp a) ic ml st = map (capture st) (ms a ic ml st)"

definition Plus :: "re \<Rightarrow> re" where
  "Plus r = Seq r (Star r)"

definition seqs :: "re list \<Rightarrow> re" where
  "seqs rs = foldr Seq rs (Lit [])"

text \<open>\<open>Cls []\<close> matches nothing, so it ends an alternation without adding a branch.\<close>

definition alts :: "re list \<Rightarrow> re" where
  "alts rs = foldr Alt rs (Cls [])"

definition words :: "string list \<Rightarrow> re" where
  "words ws = alts (map Lit ws)"

text \<open>A match object: \<open>group()\<close>, \<open>group(1)\<close> (\<open>None\<close> when the group took no part in the
  match) and the text after the match.\<close>

record rmatch =
  m_whole :: pystr
  m_grp :: "pystr option"
  m_post :: pystr

text \<open>\<open>re.search\<close>: the first position, from the left, at which the pattern matches.\<close>

fun search_from :: "re \<Rightarrow> bool \<Rightarrow> bool \<Rightarrow> pychar option \<Rightarrow> pystr \<Rightarrow> rmatch option" where
  "search_from r ic ml p s =
     (case ms r ic ml \<lparr>prev = p, rest = s, grp = None\<rparr> of
        st' # _ \<Rightarrow> Some \<lparr>m_whole = take (length s - length (rest st')) s,
                         m_grp = grp st', m_post = rest st'\<rparr>
      | [] \<Rightarrow> (case s of [] \<Rightarrow> None | c # cs \<Rightarrow> search_from r ic ml (Some c) cs))"

declare search_from.simps [simp del]

definition search :: "re \<Rightarrow> bool \<Rightarrow> bool \<Rightarrow> pystr \<Rightarrow> rmatch option" where
  "search r ic ml s = search_from r ic ml None s"

text \<open>\<open>re.match\<close>: a match at the start of the string only.\<close>

definition match_start :: "re \<Rightarrow> bool \<Rightarrow> bool \<Rightarrow> pystr \<Rightarrow> rmatch option" where
  "match_start r ic ml s =
     (case ms r ic ml \<lparr>prev = None, rest = s, grp = None\<rparr> of
        st' # _ \<Rightarrow> Some \<lparr>m_whole = take (length s - length (rest st')) s,
                         m_grp = grp st', m_post = rest st'\<rparr>
      | [] \<Rightarrow> None)"

text \<open>\<open>re.sub\<close>: every match, left to right and not overlapping, is replaced. The four
  patterns this program substitutes each start with a mandatory character, so a match
  always consumes one; a position with no such match keeps its character.\<close>

function sub_from :: "re \<Rightarrow> bool \<Rightarrow> pystr \<Rightarrow> pychar option \<Rightarrow> pystr \<Rightarrow> pystr" where
  "sub_from r ic repl p s =
     (case (case ms r ic False \<lparr>prev = p, rest = s, grp = None\<rparr> of
              st' # _ \<Rightarrow> if length (rest st') < length s then Some st' else None
            | [] \<Rightarrow> None) of
        Some st' \<Rightarrow> repl @ sub_from r ic repl (prev st') (rest st')
      | None \<Rightarrow> (case s of [] \<Rightarrow> [] | c # cs \<Rightarrow> c # sub_from r ic repl (Some c) cs))"
  by pat_completeness auto
termination
  by (relation "measure (\<lambda>(r, ic, repl, p, s). length s)")
     (auto split: list.splits if_splits)

declare sub_from.simps [simp del]

definition re_sub :: "re \<Rightarrow> bool \<Rightarrow> pystr \<Rightarrow> pystr \<Rightarrow> pystr" where
  "re_sub r ic repl s = sub_from r ic repl None s"

section \<open>The pattern tables of \<open>OCRService.__init__\<close>\<close>

definition letters :: "citem list" where
  "letters = [In az, In AZ]"

definition digits09 :: "citem list" where
  "digits09 = [In d09]"

text \<open>\<open>[\s\:]*\<close>, the separator most patterns allow after their keyword.\<close>

definition sep :: re where
  "sep = Star (Cls [Space, Ch CHR '':''])"

text \<open>\<open>[a-zA-Z\s\.]\<close>, \<open>[a-zA-Z0-9\/\-]\<close>, \<open>[a-zA-Z\s\&\(\)]\<close>\<close>

definition name_chars :: "citem list" where
  "name_chars = letters @ [Space, Ch CHR ''.'']"

definition id_chars :: "citem list" where
  "id_chars = letters @ digits09 @ [Ch CHR ''/'', Ch CHR ''-'']"

definition title_chars :: "citem list" where
  "title_chars = letters @ [Space, Ch CHR ''&'', Ch CHR ''('', Ch CHR '')'']"

definition inst_words :: re where
  "inst_words = words [''university'', ''college'', ''institute'', ''school'']"

definition name_patterns :: "re list" where
  "name_patterns =
    [seqs [words [''name'', ''candidate'', ''student''], sep, Grp (Plus (Cls name_chars))],
     seqs [Lit ''this'', Plus (Cls [Space]), Lit ''is'', Plus (Cls [Space]), Lit ''to'',
           Plus (Cls [Space]), Lit ''certify'', Plus (Cls [Space]), Lit ''that'',
           Plus (Cls [Space]), Grp (Plus (Cls name_chars))],
     alts [Lit ''mr.'', Lit ''ms.'',
           seqs [Lit ''miss'', Plus (Cls [Space]), Grp (Plus (Cls name_chars))]]]"

definition roll_number_patterns :: "re list" where
  "roll_number_patterns =
    [seqs [words [''roll'', ''registration'', ''student'', ''id''], sep, Lit ''no'', sep,
           Grp (Plus (Cls id_chars))],
     seqs [Lit ''roll'', sep, Grp (Plus (Cls id_chars))],
     seqs [Lit ''reg'', sep, Lit ''no'', sep, Grp (Plus (Cls id_chars))]]"

definition degree_patterns :: "re list" where
  "degree_patterns =
    [seqs [words [''bachelor'', ''master'', ''diploma'', ''certificate'', ''degree''], sep,
           Star (words [''of'', ''in'', ''programme'']), Star (Cls [Space]),
           Grp (Plus (Cls title_chars))],
     seqs [alts [seqs [Lit ''b'', Opt (Lit ''.''), Star (Cls letters)],
                 seqs [Lit ''m'', Opt (Lit ''.''), Star (Cls letters)],
                 Lit ''phd'', Lit ''ph.d''], sep,
           Star (Lit ''in''), Star (Cls [Space]), Grp (Star (Cls title_chars))],
     seqs [words [''course'', ''program'', ''programme''], sep, Grp (Plus (Cls title_chars))]]"

definition issue_year_patterns :: "re list" where
  "issue_year_patterns =
    [seqs [words [''year'', ''session'', ''batch''], sep, Grp (Rep 4 4 (Cls digits09))],
     seqs [words [''passed'', ''completed''], sep, Star (Lit ''in''), Star (Cls [Space]),
           Grp (Rep 4 4 (Cls digits09))],
     seqs [Grp (Rep 4 4 (Cls digits09)),
           alts [seqs [Star (Cls [Space]), Lit ''batch''], seqs [Star (Cls [Space]), Lit ''session'']]],
     seqs [words [''dated'', ''date''], sep, Rep 0 20 Dot, Grp (Rep 4 4 (Cls digits09))]]"

definition institution_patterns :: "re list" where
  "institution_patterns =
    [seqs [inst_words, sep, Grp (Lazy Dot), inst_words],
     seqs [Bol, Grp (seqs [Star (NCls (digits09 @ [Ch nl])), inst_words,
                           Star (NCls (digits09 @ [Ch nl]))])],
     seqs [alts [seqs [Lit ''awarded'', Plus (Cls [Space]), Lit ''by''],
                 seqs [Lit ''issued'', Plus (Cls [Space]), Lit ''by''], Lit ''from''], sep,
           Grp (Plus (Cls (letters @ [Space, Ch CHR '','', Ch CHR ''&'', Ch CHR ''('', Ch CHR '')''])))]]"

definition grade_chars :: "citem list" where
  "grade_chars = letters @ digits09 @ [Ch CHR ''.'', Space]"

definition grade_patterns :: "re list" where
  "grade_patterns =
    [seqs [words [''grade'', ''cgpa'', ''gpa'', ''marks'', ''percentage''], sep,
           Grp (Plus (Cls grade_chars))],
     seqs [words [''secured'', ''obtained'', ''scored''], sep, Grp (Plus (Cls grade_chars)),
           alts [seqs [Star (Cls [Space]), Lit ''grade''], seqs [Star (Cls [Space]), Lit ''cgpa''],
                 seqs [Star (Cls [Space]), Lit ''gpa''], seqs [Star (Cls [Space]), Lit ''marks''],
                 seqs [Star (Cls [Space]), Lit ''%'']]]]"

definition certificate_number_patterns :: "re list" where
  "certificate_number_patterns =
    [seqs [words [''certificate'', ''cert'', ''diploma''], sep, Lit ''no'', sep,
           Grp (Plus (Cls id_chars))],
     seqs [words [''serial'', ''certificate''], sep, Grp (Plus (Cls id_chars))]]"

text \<open>\<open>self.patterns\<close>; a Python dict is read in the order its keys were written.\<close>

definition patterns :: "(string \<times> re list) list" where
  "patterns =
    [(''name'', name_patterns),
     (''roll_number'', roll_number_patterns),
     (''degree'', degree_patterns),
     (''issue_year'', issue_year_patterns),
     (''institution'', institution_patterns),
     (''grade'', grade_patterns),
     (''certificate_number'', certificate_number_patterns)]"

section \<open>Cleaning and validation: \<open>_clean_extracted_value\<close>\<close>

text \<open>\<open>\s+\<close>, \<open>[^\w\s\.\-\/\(\)\&]\<close>, \<open>(?:mr|ms|miss|dr|prof)\.?\s*\<close>,
  \<open>^[a-zA-Z0-9\/\-]{2,20}$\<close> and \<open>(19|20)\d{2}\<close>.\<close>

definition ws_re :: re where
  "ws_re = Plus (Cls [Space])"

definition junk_re :: re where
  "junk_re = NCls [Word, Space, Ch CHR ''.'', Ch CHR ''-'', Ch CHR ''/'', Ch CHR ''('', Ch CHR '')'', Ch CHR ''&'']"

definition honorific_re :: re where
  "honorific_re = seqs [words [''mr'', ''ms'', ''miss'', ''dr'', ''prof''], Opt (Lit ''.''), Star (Cls [Space])]"

definition roll_re :: re where
  "roll_re = seqs [Bol, Rep 2 20 (Cls id_chars), Eol]"

definition year_re :: re where
  "year_re = seqs [Grp (alts [Lit ''19'', Lit ''20'']), Rep 2 2 (Cls [Digit])]"

text \<open>The two substitutions every candidate goes through.\<close>

definition generic_clean :: "pystr \<Rightarrow> pystr" where
  "generic_clean v = re_sub junk_re False [] (re_sub ws_re False (py '' '') (strip v))"

definition clean_extracted_value :: "pystr \<Rightarrow> string \<Rightarrow> pystr" where
  "clean_extracted_value v field_type =
     (if v = [] then []
      else let cleaned = generic_clean v in
        if field_type = ''name'' then
          (let cleaned' = re_sub honorific_re True [] cleaned
           in if length cleaned' > 50 then [] else cleaned')
        else if field_type = ''roll_number'' then
          (if match_start roll_re False False cleaned = None then [] else cleaned)
        else if field_type = ''issue_year'' then
          (case search year_re False False cleaned of
             Some m \<Rightarrow> (let year = int_of_str (m_whole m)
                        in if 1950 \<le> year \<and> year \<le> 2030 then py (str_of_nat year) else [])
           | None \<Rightarrow> [])
        else cleaned)"

section \<open>The parser: \<open>_parse_credentials\<close> and \<open>_post_process_fields\<close>\<close>

datatype exn = AttributeError | LibError string

text \<open>\<open>ExtractedCredential\<close>: every field optional, \<open>None\<close> until set.\<close>

record credential =
  name :: "pystr option"
  roll_number :: "pystr option"
  degree :: "pystr option"
  issue_year :: "pystr option"
  institution :: "pystr option"
  grade :: "pystr option"
  specialization :: "pystr option"
  certificate_number :: "pystr option"
  raw_text :: "pystr option"
  confidence_score :: "real option"

definition ExtractedCredential :: credential where
  "ExtractedCredential = \<lparr>name = None, roll_number = None, degree = None, issue_year = None,
     institution = None, grade = None, specialization = None, certificate_number = None,
     raw_text = None, confidence_score = None\<rparr>"

text \<open>\<open>setattr(credentials, field, value)\<close> for the keys of the pattern table.\<close>

definition setattr :: "credential \<Rightarrow> string \<Rightarrow> pystr \<Rightarrow> credential" where
  "setattr c field v =
     (if field = ''name'' then c\<lparr>name := Some v\<rparr>
      else if field = ''roll_number'' then c\<lparr>roll_number := Some v\<rparr>
      else if field = ''degree'' then c\<lparr>degree := Some v\<rparr>
      else if field = ''issue_year'' then c\<lparr>issue_year := Some v\<rparr>
      else if field = ''institution'' then c\<lparr>institution := Some v\<rparr>
      else if field = ''grade'' then c\<lparr>grade := Some v\<rparr>
      else if field = ''certificate_number'' then c\<lparr>certificate_number := Some v\<rparr>
      else c)"

text \<open>The inner loop over one field's patterns. \<open>match.group(1)\<close> is \<open>None\<close> when the
  group took no part in the match, and \<open>None.strip()\<close> raises \<open>AttributeError\<close>.\<close>

fun try_patterns :: "string \<Rightarrow> re list \<Rightarrow> pystr \<Rightarrow> exn + pystr option" where
  "try_patterns field [] text_lower = Inr None"
| "try_patterns field (p # ps) text_lower =
     (case search p True True text_lower of
        None \<Rightarrow> try_patterns field ps text_lower
      | Some m \<Rightarrow>
          (case m_grp m of
             None \<Rightarrow> Inl AttributeError
           | Some g \<Rightarrow>
               (let cleaned_value = clean_extracted_value (strip g) field
                in if cleaned_value \<noteq> [] then Inr (Some cleaned_value)
                   else try_patterns field ps text_lower)))"

text \<open>The outer loop over the fields.\<close>

fun extract_fields :: "(string \<times> re list) list \<Rightarrow> pystr \<Rightarrow> credential \<Rightarrow> exn + credential" where
  "extract_fields [] text_lower c = Inr c"
| "extract_fields ((field, ps) # others) text_lower c =
     (case try_patterns field ps text_lower of
        Inl e \<Rightarrow> Inl e
      | Inr None \<Rightarrow> extract_fields others text_lower c
      | Inr (Some v) \<Rightarrow> extract_fields others text_lower (setattr c field v))"

text \<open>\<open>[^,\n]*university[^,\n]*\<close> and its two siblings; \<open>(?:in|of)\s+([a-zA-Z\s\&\(\)]+)\<close>.\<close>

definition indicator :: "string \<Rightarrow> re" where
  "indicator w = Grp (seqs [Star (NCls [Ch CHR '','', Ch nl]), Lit w, Star (NCls [Ch CHR '','', Ch nl])])"

definition institution_indicators :: "re list" where
  "institution_indicators = [indicator ''university'', indicator ''college'', indicator ''institute'']"

definition spec_re :: re where
  "spec_re = seqs [words [''in'', ''of''], Plus (Cls [Space]), Grp (Plus (Cls title_chars))]"

text \<open>The search for an institution in the original text. \<open>_clean_extracted_value\<close>
  returns the empty string for a \<open>None\<close> argument.\<close>

fun find_institution :: "re list \<Rightarrow> pystr \<Rightarrow> pystr option" where
  "find_institution [] raw = None"
| "find_institution (p # ps) raw =
     (case search p True False raw of
        None \<Rightarrow> find_institution ps raw
      | Some m \<Rightarrow>
          (let inst_name = (case m_grp m of
                              None \<Rightarrow> []
                            | Some g \<Rightarrow> clean_extracted_value g ''institution'')
           in if length inst_name > 10 then Some inst_name else find_institution ps raw))"

definition falsy :: "pystr option \<Rightarrow> bool" where
  "falsy v = (v = None \<or> v = Some [])"

text \<open>\<open>spec_match.group(1).strip()\<close> raises \<open>AttributeError\<close> should the group be
  \<open>None\<close>.\<close>

definition post_process_fields :: "credential \<Rightarrow> pystr \<Rightarrow> exn + credential" where
  "post_process_fields c raw =
     (let c1 = (if falsy (institution c) then
                  (case find_institution institution_indicators raw of
                     Some inst_name \<Rightarrow> c\<lparr>institution := Some inst_name\<rparr>
                   | None \<Rightarrow> c)
                else c)
      in if \<not> falsy (degree c1) \<and> falsy (specialization c1) then
           (case search spec_re True False (the (degree c1)) of
              Some m \<Rightarrow>
                (case m_grp m of
                   None \<Rightarrow> Inl AttributeError
                 | Some g \<Rightarrow>
                     Inr (c1\<lparr>specialization := Some (strip g),
                             degree := Some (strip (re_sub spec_re True [] (the (degree c1))))\<rparr>))
            | None \<Rightarrow> Inr c1)
         else Inr c1)"

text \<open>\<open>credentials.dict(exclude_none=True)\<close>: the keys whose value is not \<open>None\<close>.\<close>

datatype pyval = Str pystr | Flt real

definition dict_exclude_none :: "credential \<Rightarrow> (string \<rightharpoonup> pyval)" where
  "dict_exclude_none c = (\<lambda>k. Option.bind (map_of
     [(''name'', map_option Str (name c)),
      (''roll_number'', map_option Str (roll_number c)),
      (''degree'', map_option Str (degree c)),
      (''issue_year'', map_option Str (issue_year c)),
      (''institution'', map_option Str (institution c)),
      (''grade'', map_option Str (grade c)),
      (''specialization'', map_option Str (specialization c)),
      (''certificate_number'', map_option Str (certificate_number c)),
      (''raw_text'', map_option Str (raw_text c)),
      (''confidence_score'', map_option Flt (confidence_score c))] k) id)"

definition parse_credentials :: "pystr \<Rightarrow> exn + (string \<rightharpoonup> pyval)" where
  "parse_credentials raw =
     (case extract_fields patterns (lower raw) ExtractedCredential of
        Inl e \<Rightarrow> Inl e
      | Inr c \<Rightarrow> (case post_process_fields c raw of
                    Inl e \<Rightarrow> Inl e
                  | Inr c' \<Rightarrow> Inr (dict_exclude_none c')))"

text \<open>Reading a field by its key, the counterpart of \<open>setattr\<close>.\<close>

definition getattr :: "credential \<Rightarrow> string \<Rightarrow> pystr option" where
  "getattr c field =
     (if field = ''name'' then name c
      else if field = ''roll_number'' then roll_number c
      else if field = ''degree'' then degree c
      else if field = ''issue_year'' then issue_year c
      else if field = ''institution'' then institution c
      else if field = ''grade'' then grade c
      else if field = ''certificate_number'' then certificate_number c
      else None)"

text \<open>The body of the inner loop for one pattern: what the pattern contributes, the
  empty string when it does not match or its candidate is rejected.\<close>

definition pattern_value :: "string \<Rightarrow> re \<Rightarrow> pystr \<Rightarrow> exn + pystr" where
  "pattern_value field p text_lower =
     (case search p True True text_lower of
        None \<Rightarrow> Inr []
      | Some m \<Rightarrow> (case m_grp m of
                    None \<Rightarrow> Inl AttributeError
                  | Some g \<Rightarrow> Inr (clean_extracted_value (strip g) field)))"

section \<open>The world outside: files and libraries\<close>

text \<open>
  A path is its list of components (\<open>pathlib.Path\<close>); the file system maps a path to the
  bytes of the file there. The libraries (OpenCV, PIL, EasyOCR, PyMuPDF, PyPDF2) are
  functions of the bytes they are given; one that can raise returns a sum. A raster is the
  list of its pixel values, \<open>np.array([])\<close> the empty one.
\<close>

type_synonym path = "string list"
type_synonym bytes = "nat list"
type_synonym raster = "nat list"
type_synonym fs = "path \<rightharpoonup> bytes"

text \<open>A page of a PyMuPDF document: \<open>page.get_text()\<close> and the PNG bytes of
  \<open>page.get_pixmap(matrix=fitz.Matrix(2, 2)).tobytes("png")\<close>.\<close>

record fpage =
  get_text :: "exn + pystr"
  pixmap_png :: "exn + bytes"

record env =
  decode_cv2 :: "bytes \<Rightarrow> raster option"      \<comment> \<open>\<open>cv2.imread\<close>: \<open>None\<close> when it cannot decode\<close>
  decode_pil :: "bytes \<Rightarrow> exn + raster"        \<comment> \<open>\<open>np.array(Image.open(...))\<close>\<close>
  cvt_rgb2bgr :: "raster \<Rightarrow> exn + raster"
  cvt_gray :: "raster \<Rightarrow> exn + raster"
  denoise :: "raster \<Rightarrow> exn + raster"
  threshold :: "raster \<Rightarrow> exn + raster"
  readtext :: "raster \<Rightarrow> exn + (pystr \<times> real) list"   \<comment> \<open>the text and confidence of each detection\<close>
  fitz_open :: "bytes \<Rightarrow> exn + fpage list"
  pdf_reader :: "bytes \<Rightarrow> exn + (exn + pystr) list"      \<comment> \<open>per page, \<open>page.extract_text()\<close>\<close>
  writable :: "path \<Rightarrow> bool"

definition read_file :: "fs \<Rightarrow> path \<Rightarrow> exn + bytes" where
  "read_file files p = (case files p of None \<Rightarrow> Inl (LibError ''FileNotFoundError'') | Some b \<Rightarrow> Inr b)"

definition write_file :: "env \<Rightarrow> fs \<Rightarrow> path \<Rightarrow> bytes \<Rightarrow> exn + fs" where
  "write_file E files p b = (if writable E p then Inr (files(p \<mapsto> b)) else Inl (LibError ''PermissionError''))"

text \<open>\<open>path.unlink(missing_ok=True)\<close>\<close>

definition unlink :: "fs \<Rightarrow> path \<Rightarrow> fs" where
  "unlink files p = files(p := None)"

definition imread :: "env \<Rightarrow> fs \<Rightarrow> path \<Rightarrow> raster option" where
  "imread E files p = (case files p of None \<Rightarrow> None | Some b \<Rightarrow> decode_cv2 E b)"

definition pil_open :: "env \<Rightarrow> fs \<Rightarrow> path \<Rightarrow> exn + raster" where
  "pil_open E files p = (case read_file files p of Inl e \<Rightarrow> Inl e | Inr b \<Rightarrow> decode_pil E b)"

text \<open>One statement after another inside a \<open>try\<close>: the first exception ends the block.\<close>

definition and_then :: "exn + 'a \<Rightarrow> ('a \<Rightarrow> exn + 'b) \<Rightarrow> exn + 'b" where
  "and_then r f = (case r of Inl e \<Rightarrow> Inl e | Inr x \<Rightarrow> f x)"

section \<open>\<open>_preprocess_image\<close> and \<open>_ocr_image\<close>\<close>

text \<open>The \<open>try\<close> block of \<open>_preprocess_image\<close>.\<close>

definition preprocess_steps :: "env \<Rightarrow> fs \<Rightarrow> path \<Rightarrow> exn + raster" where
  "preprocess_steps E files image_path =
     and_then (case imread E files image_path of
                 Some img \<Rightarrow> Inr img
               | None \<Rightarrow> and_then (pil_open E files image_path) (cvt_rgb2bgr E))
       (\<lambda>img. and_then (cvt_gray E img)
          (\<lambda>gray. and_then (denoise E gray)
             (\<lambda>denoised. threshold E denoised)))"

text \<open>The handler reads the file again with \<open>cv2.imread\<close> and returns that image, or the
  empty array.\<close>

definition preprocess_image :: "env \<Rightarrow> fs \<Rightarrow> path \<Rightarrow> raster" where
  "preprocess_image E files image_path =
     (case preprocess_steps E files image_path of
        Inr processed \<Rightarrow> processed
      | Inl e \<Rightarrow> (case imread E files image_path of Some img \<Rightarrow> img | None \<Rightarrow> []))"

definition ocr_image :: "env \<Rightarrow> fs \<Rightarrow> path \<Rightarrow> exn + pystr \<times> real" where
  "ocr_image E files file_path =
     (case readtext E (preprocess_image E files file_path) of
        Inl e \<Rightarrow> Inl e
      | Inr results \<Rightarrow>
          (let (full_text, total_confidence) =
                 foldl (\<lambda>(ft, tc) (text, confidence). (ft @ text @ py '' '', tc + confidence))
                       ([], 0) results
           in Inr (strip full_text,
                   if results \<noteq> [] then total_confidence / real (length results) else 0)))"

section \<open>\<open>_extract_from_pdf\<close> and \<open>_extract_from_pdf_fallback\<close>\<close>

definition temp_img_path :: "path \<Rightarrow> nat \<Rightarrow> path" where
  "temp_img_path file_path page_num = butlast file_path @ [''temp_page_'' @ str_of_nat page_num @ ''.png'']"

text \<open>The loop over the pages. It carries \<open>full_text\<close>, \<open>total_confidence\<close> and
  \<open>page_count\<close>, and the file system; an exception ends it where it stands.\<close>

fun pages_loop :: "env \<Rightarrow> path \<Rightarrow> fpage list \<Rightarrow> nat \<Rightarrow> pystr \<times> real \<times> nat \<Rightarrow> fs
                   \<Rightarrow> (exn + pystr \<times> real \<times> nat) \<times> fs" where
  "pages_loop E file_path [] page_num acc files = (Inr acc, files)"
| "pages_loop E file_path (page # pages) page_num (full_text, total_confidence, page_count) files =
     (case get_text page of
        Inl e \<Rightarrow> (Inl e, files)
      | Inr text \<Rightarrow>
          if strip text \<noteq> [] then
            pages_loop E file_path pages (Suc page_num)
              (full_text @ text @ [Lat nl], total_confidence + 0.95, Suc page_count) files
          else
            (case pixmap_png page of
               Inl e \<Rightarrow> (Inl e, files)
             | Inr img_data \<Rightarrow>
                 (case write_file E files (temp_img_path file_path page_num) img_data of
                    Inl e \<Rightarrow> (Inl e, files)
                  | Inr files1 \<Rightarrow>
                      (case ocr_image E files1 (temp_img_path file_path page_num) of
                         Inl e \<Rightarrow> (Inl e, files1)
                       | Inr (page_text, page_confidence) \<Rightarrow>
                           pages_loop E file_path pages (Suc page_num)
                             (full_text @ page_text @ [Lat nl], total_confidence + page_confidence,
                              Suc page_count)
                             (unlink files1 (temp_img_path file_path page_num))))))"

text \<open>The \<open>try\<close> block of \<open>_extract_from_pdf\<close>.\<close>

definition extract_from_pdf_primary :: "env \<Rightarrow> path \<Rightarrow> fs \<Rightarrow> (exn + pystr \<times> real) \<times> fs" where
  "extract_from_pdf_primary E file_path files =
     (case and_then (read_file files file_path) (fitz_open E) of
        Inl e \<Rightarrow> (Inl e, files)
      | Inr doc \<Rightarrow>
          (case pages_loop E file_path doc 0 ([], 0, 0) files of
             (Inl e, files') \<Rightarrow> (Inl e, files')
           | (Inr (full_text, total_confidence, page_count), files') \<Rightarrow>
               (Inr (strip full_text,
                     if page_count > 0 then total_confidence / real page_count else 0), files')))"

fun fallback_loop :: "(exn + pystr) list \<Rightarrow> pystr \<Rightarrow> exn + pystr" where
  "fallback_loop [] full_text = Inr full_text"
| "fallback_loop (page # pages) full_text =
     (case page of Inl e \<Rightarrow> Inl e | Inr text \<Rightarrow> fallback_loop pages (full_text @ text @ [Lat nl]))"

definition extract_from_pdf_fallback :: "env \<Rightarrow> path \<Rightarrow> fs \<Rightarrow> exn + pystr \<times> real" where
  "extract_from_pdf_fallback E file_path files =
     and_then (read_file files file_path)
       (\<lambda>file. and_then (pdf_reader E file)
          (\<lambda>pages. and_then (fallback_loop pages [])
             (\<lambda>full_text. Inr (strip full_text, 0.8))))"

definition extract_from_pdf :: "env \<Rightarrow> path \<Rightarrow> fs \<Rightarrow> (exn + pystr \<times> real) \<times> fs" where
  "extract_from_pdf E file_path files =
     (case extract_from_pdf_primary E file_path files of
        (Inr r, files') \<Rightarrow> (Inr r, files')
      | (Inl e, files') \<Rightarrow> (extract_from_pdf_fallback E file_path files', files'))"

section \<open>Equations for evaluation\<close>

text \<open>Upper-case letters have bit 6 set and bit 5 clear, lower-case letters have both set;
  a character that fails this test is left alone without a search of the tables.\<close>

lemma is_upper_bits: "is_upper (Char b0 b1 b2 b3 b4 b5 b6 b7) \<Longrightarrow> b6 \<and> \<not> b5"
  by (auto simp: is_upper_def AZ_def latin_uppers_def)

lemma has_upper_bits:
  "Char b0 b1 b2 b3 b4 b5 b6 b7 \<in> set (az @ latin_lowers) \<Longrightarrow> b6 \<and> b5"
  by (auto simp: az_def latin_lowers_def)

lemma lower_char_code [code]:
  "lower_char (Char b0 b1 b2 b3 b4 b5 b6 b7) =
     (if b5 \<or> \<not> b6 then Char b0 b1 b2 b3 b4 b5 b6 b7
      else if is_upper (Char b0 b1 b2 b3 b4 b5 b6 b7) then Char b0 b1 b2 b3 b4 True b6 b7
      else Char b0 b1 b2 b3 b4 b5 b6 b7)"
  using is_upper_bits [of b0 b1 b2 b3 b4 b5 b6 b7] by (auto simp: lower_char_def)

lemma upper_char_code [code]:
  "upper_char (Char b0 b1 b2 b3 b4 b5 b6 b7) =
     (if \<not> b5 \<or> \<not> b6 then Char b0 b1 b2 b3 b4 b5 b6 b7
      else if Char b0 b1 b2 b3 b4 b5 b6 b7 \<in> set (az @ latin_lowers)
           then Char b0 b1 b2 b3 b4 False b6 b7
      else Char b0 b1 b2 b3 b4 b5 b6 b7)"
  using has_upper_bits [of b0 b1 b2 b3 b4 b5 b6 b7] by (auto simp: upper_char_def)

lemma item_match_code [code]:
  "item_match ic (Ch c) x = chr_eq ic c x"
  "item_match ic (In cs) x =
     (case x of
        Lat y \<Rightarrow> (if ic then (if lower_char y \<in> set cs then True
                              else upper_char (lower_char y) \<in> set cs)
                  else y \<in> set cs)
      | Wide n sp al de up ie lo \<Rightarrow> ic \<and> list_ex (\<lambda>e. e \<in> set cs \<or> upper_char e \<in> set cs) ie)"
  "item_match ic Space x =
     (case x of Lat y \<Rightarrow> is_space (if ic then lower_char y else y) | _ \<Rightarrow> py_space x)"
  "item_match ic Word x =
     (case x of Lat y \<Rightarrow> is_word (if ic then lower_char y else y) | _ \<Rightarrow> py_word x)"
  "item_match ic Digit x =
     (case x of Lat y \<Rightarrow> is_digit (if ic then lower_char y else y) | _ \<Rightarrow> py_digit x)"
  by (auto split: pychar.splits)

lemma cls_match_code [code]:
  "cls_match ic [] x = False"
  "cls_match ic (i # items) x = (if item_match ic i x then True else cls_match ic items x)"
  by (simp_all add: cls_match_def)

section \<open>The loops of the parser\<close>

lemma try_patterns_Cons:
  "try_patterns field (p # ps) t =
     (case pattern_value field p t of
        Inl e \<Rightarrow> Inl e
      | Inr v \<Rightarrow> if v \<noteq> [] then Inr (Some v) else try_patterns field ps t)"
  by (simp add: pattern_value_def Let_def split: option.splits)

declare try_patterns.simps(2) [simp del]

lemma try_patterns_accept:
  "try_patterns field ps t = Inr (Some v) \<longleftrightarrow>
     (\<exists>i<length ps. pattern_value field (ps ! i) t = Inr v \<and> v \<noteq> [] \<and>
        (\<forall>j<i. pattern_value field (ps ! j) t = Inr []))"
proof (induction ps)
  case Nil
  show ?case by simp
next
  case (Cons p ps)
  show ?case
  proof (cases "pattern_value field p t")
    case (Inl e)
    have "try_patterns field (p # ps) t = Inl e"
      using Inl by (simp add: try_patterns_Cons)
    moreover have "\<not> (\<exists>i<length (p # ps). pattern_value field ((p # ps) ! i) t = Inr v \<and> v \<noteq> [] \<and>
          (\<forall>j<i. pattern_value field ((p # ps) ! j) t = Inr []))"
    proof
      assume "\<exists>i<length (p # ps). pattern_value field ((p # ps) ! i) t = Inr v \<and> v \<noteq> [] \<and>
          (\<forall>j<i. pattern_value field ((p # ps) ! j) t = Inr [])"
      then obtain i where i: "pattern_value field ((p # ps) ! i) t = Inr v"
          "\<forall>j<i. pattern_value field ((p # ps) ! j) t = Inr []" by blast
      show False
      proof (cases i)
        case 0
        with i Inl show ?thesis by simp
      next
        case (Suc k)
        with i(2) have "pattern_value field ((p # ps) ! 0) t = Inr []" by blast
        with Inl show ?thesis by simp
      qed
    qed
    ultimately show ?thesis by simp
  next
    case (Inr w)
    show ?thesis
    proof (cases "w = []")
      case True
      have "try_patterns field (p # ps) t = try_patterns field ps t"
        using Inr True by (simp add: try_patterns_Cons)
      moreover have "(\<exists>i<length (p # ps). pattern_value field ((p # ps) ! i) t = Inr v \<and> v \<noteq> [] \<and>
          (\<forall>j<i. pattern_value field ((p # ps) ! j) t = Inr [])) \<longleftrightarrow>
        (\<exists>i<length ps. pattern_value field (ps ! i) t = Inr v \<and> v \<noteq> [] \<and>
          (\<forall>j<i. pattern_value field (ps ! j) t = Inr []))" (is "?L \<longleftrightarrow> ?R")
      proof
        assume ?L
        then obtain i where i: "i < length (p # ps)" "pattern_value field ((p # ps) ! i) t = Inr v" "v \<noteq> []"
          "\<forall>j<i. pattern_value field ((p # ps) ! j) t = Inr []" by blast
        from i Inr True obtain k where k: "i = Suc k" by (cases i) auto
        have "\<forall>j<k. pattern_value field (ps ! j) t = Inr []"
        proof (intro allI impI)
          fix j assume "j < k"
          then have "Suc j < i" using k by simp
          with i(4) have "pattern_value field ((p # ps) ! Suc j) t = Inr []" by blast
          then show "pattern_value field (ps ! j) t = Inr []" by simp
        qed
        with i k show ?R by auto
      next
        assume ?R
        then obtain i where i: "i < length ps" "pattern_value field (ps ! i) t = Inr v" "v \<noteq> []"
          "\<forall>j<i. pattern_value field (ps ! j) t = Inr []" by blast
        have "\<forall>j<Suc i. pattern_value field ((p # ps) ! j) t = Inr []"
          using i(4) Inr True by (auto simp: nth_Cons split: nat.splits)
        with i show ?L by (intro exI[of _ "Suc i"]) auto
      qed
      ultimately show ?thesis using Cons.IH by simp
    next
      case False
      have "try_patterns field (p # ps) t = Inr (Some w)"
        using Inr False by (simp add: try_patterns_Cons)
      moreover have "(\<exists>i<length (p # ps). pattern_value field ((p # ps) ! i) t = Inr v \<and> v \<noteq> [] \<and>
          (\<forall>j<i. pattern_value field ((p # ps) ! j) t = Inr [])) \<longleftrightarrow> v = w" (is "?L \<longleftrightarrow> _")
      proof
        assume ?L
        then obtain i where i: "i < length (p # ps)" "pattern_value field ((p # ps) ! i) t = Inr v"
          "\<forall>j<i. pattern_value field ((p # ps) ! j) t = Inr []" by blast
        show "v = w"
        proof (cases i)
          case 0
          with i Inr show ?thesis by simp
        next
          case (Suc k)
          with i(3) have "pattern_value field ((p # ps) ! 0) t = Inr []" by blast
          with Inr False show ?thesis by simp
        qed
      next
        assume "v = w"
        with Inr False show ?L by (intro exI[of _ 0]) auto
      qed
      ultimately show ?thesis by auto
    qed
  qed
qed


lemma getattr_setattr:
  "f \<in> fst ` set patterns \<Longrightarrow> getattr (setattr c f v) g = (if g = f then Some v else getattr c g)"
  by (auto simp: patterns_def getattr_def setattr_def)

lemma getattr_empty: "getattr ExtractedCredential f = None"
  by (simp add: getattr_def ExtractedCredential_def)

lemma extract_fields_getattr:
  "extract_fields pats t c0 = Inr c \<Longrightarrow> distinct (map fst pats) \<Longrightarrow>
   fst ` set pats \<subseteq> fst ` set patterns \<Longrightarrow>
   (\<forall>(f, ps) \<in> set pats. \<exists>r. try_patterns f ps t = Inr r \<and>
        getattr c f = (case r of Some v \<Rightarrow> Some v | None \<Rightarrow> getattr c0 f)) \<and>
   (\<forall>f. f \<notin> fst ` set pats \<longrightarrow> getattr c f = getattr c0 f)"
proof (induction pats arbitrary: c0)
  case Nil
  then show ?case by simp
next
  case (Cons fp pats)
  obtain f ps where fp: "fp = (f, ps)" by (cases fp)
  from Cons.prems(1) fp obtain r where r: "try_patterns f ps t = Inr r"
    by (cases "try_patterns f ps t") auto
  define c1 where "c1 = (case r of Some v \<Rightarrow> setattr c0 f v | None \<Rightarrow> c0)"
  have run: "extract_fields pats t c1 = Inr c"
    using Cons.prems(1) fp r by (auto simp: c1_def split: option.splits)
  have d: "distinct (map fst pats)" and fnot: "f \<notin> fst ` set pats"
    using Cons.prems(2) fp by auto
  have sub: "fst ` set pats \<subseteq> fst ` set patterns" and fin: "f \<in> fst ` set patterns"
    using Cons.prems(3) fp by auto
  note IH = Cons.IH [OF run d sub]
  have c1_f: "getattr c1 f = (case r of Some v \<Rightarrow> Some v | None \<Rightarrow> getattr c0 f)"
    by (auto simp: c1_def getattr_setattr [OF fin] split: option.splits)
  have c1_g: "g \<noteq> f \<Longrightarrow> getattr c1 g = getattr c0 g" for g
    by (auto simp: c1_def getattr_setattr [OF fin] split: option.splits)
  have "getattr c f = getattr c1 f" using IH fnot by blast
  then have head: "\<exists>r. try_patterns f ps t = Inr r \<and>
        getattr c f = (case r of Some v \<Rightarrow> Some v | None \<Rightarrow> getattr c0 f)"
    using r c1_f by simp
  have tail: "\<forall>(g, qs) \<in> set pats. \<exists>r. try_patterns g qs t = Inr r \<and>
        getattr c g = (case r of Some v \<Rightarrow> Some v | None \<Rightarrow> getattr c0 g)"
  proof (clarify)
    fix g qs assume m: "(g, qs) \<in> set pats"
    then have "g \<noteq> f" using fnot by force
    then have e: "getattr c1 g = getattr c0 g" by (rule c1_g)
    from IH m obtain r' where "try_patterns g qs t = Inr r'"
      "getattr c g = (case r' of Some v \<Rightarrow> Some v | None \<Rightarrow> getattr c1 g)" by blast
    with e show "\<exists>r. try_patterns g qs t = Inr r \<and>
        getattr c g = (case r of Some v \<Rightarrow> Some v | None \<Rightarrow> getattr c0 g)"
      by (simp split: option.splits)
  qed
  have rest: "\<forall>g. g \<notin> fst ` set (fp # pats) \<longrightarrow> getattr c g = getattr c0 g"
    using IH c1_g fp by auto
  show ?case using head tail rest fp by simp
qed

lemma patterns_distinct: "distinct (map fst patterns)"
  by (simp add: patterns_def)

lemma field_pass:
  assumes "extract_fields patterns t ExtractedCredential = Inr c" and "(f, ps) \<in> set patterns"
  shows "try_patterns f ps t = Inr (getattr c f)"
proof -
  from extract_fields_getattr [OF assms(1) patterns_distinct subset_refl] assms(2)
  obtain r where "try_patterns f ps t = Inr r"
    "getattr c f = (case r of Some v \<Rightarrow> Some v | None \<Rightarrow> getattr ExtractedCredential f)"
    by blast
  then show ?thesis by (cases r) (simp_all add: getattr_empty)
qed

section \<open>What cleaning and post-processing let through\<close>

lemma accepted_value:
  "try_patterns f ps t = Inr (Some v) \<Longrightarrow> v \<noteq> [] \<and> (\<exists>g. v = clean_extracted_value g f)"
proof -
  assume "try_patterns f ps t = Inr (Some v)"
  then obtain i where "pattern_value f (ps ! i) t = Inr v" "v \<noteq> []"
    unfolding try_patterns_accept by blast
  then show ?thesis
    by (auto simp: pattern_value_def split: option.splits)
qed

lemma clean_name:
  "clean_extracted_value g ''name'' = v \<Longrightarrow> v \<noteq> [] \<Longrightarrow>
     v = re_sub honorific_re True [] (generic_clean g) \<and> length v \<le> 50"
  by (auto simp: clean_extracted_value_def Let_def split: if_splits)

lemma clean_roll_number:
  "clean_extracted_value g ''roll_number'' = v \<Longrightarrow> v \<noteq> [] \<Longrightarrow>
     v = generic_clean g \<and> match_start roll_re False False v \<noteq> None"
  by (auto simp: clean_extracted_value_def Let_def split: if_splits)

lemma clean_issue_year:
  "clean_extracted_value g ''issue_year'' = v \<Longrightarrow> v \<noteq> [] \<Longrightarrow>
     \<exists>year. 1950 \<le> year \<and> year \<le> 2030 \<and> v = py (str_of_nat year)"
  by (auto simp: clean_extracted_value_def Let_def split: if_splits option.splits)

lemma digit_char_digit: "d < 10 \<Longrightarrow> is_digit (digit_char d)"
  by (simp add: is_digit_def digit_char_def d09_def nth_Cons split: nat.splits)

lemma str_of_nat_4:
  assumes "1000 \<le> n" "n < 10000"
  shows "str_of_nat n = [digit_char (n div 1000), digit_char (n div 100 mod 10),
                         digit_char (n div 10 mod 10), digit_char (n mod 10)]"
proof -
  have a: "str_of_nat n = str_of_nat (n div 10) @ [digit_char (n mod 10)]"
    using assms by (subst str_of_nat.simps) simp
  have b: "str_of_nat (n div 10) = str_of_nat (n div 10 div 10) @ [digit_char (n div 10 mod 10)]"
    using assms by (subst str_of_nat.simps) simp
  have c: "str_of_nat (n div 10 div 10) = str_of_nat (n div 10 div 10 div 10) @ [digit_char (n div 10 div 10 mod 10)]"
    using assms by (subst str_of_nat.simps) simp
  have d: "str_of_nat (n div 10 div 10 div 10) = [digit_char (n div 10 div 10 div 10)]"
    using assms by (subst str_of_nat.simps) simp
  have e: "n div 10 div 10 = n div 100" "n div 10 div 10 div 10 = n div 1000"
    by (simp_all add: div_mult2_eq)
  show ?thesis using a b c d e by simp
qed

lemma str_of_nat_year:
  "1950 \<le> year \<Longrightarrow> year \<le> 2030 \<Longrightarrow>
     length (str_of_nat year) = 4 \<and> (\<forall>ch\<in>set (str_of_nat year). is_digit ch)"
  by (simp add: str_of_nat_4 digit_char_digit)

lemma find_institution_Some:
  "find_institution ps raw = Some v \<Longrightarrow>
     length v > 10 \<and> (\<exists>g. v = clean_extracted_value g ''institution'')"
proof (induction ps)
  case Nil
  then show ?case by simp
next
  case (Cons p ps)
  then show ?case
    by (auto simp: Let_def split: option.splits if_splits)
qed

lemma post_process_keeps:
  assumes "post_process_fields c raw = Inr c'"
  shows "name c' = name c" "roll_number c' = roll_number c" "issue_year c' = issue_year c"
    "grade c' = grade c" "certificate_number c' = certificate_number c"
  using assms
  by (auto simp: post_process_fields_def Let_def split: option.splits if_splits)

lemma post_process_institution:
  assumes "post_process_fields c raw = Inr c'"
  shows "institution c' = institution c \<or>
         (\<exists>v. find_institution institution_indicators raw = Some v \<and> institution c' = Some v)"
  using assms
  by (auto simp: post_process_fields_def Let_def split: option.splits if_splits)

lemma patterns_mem:
  "(''name'', name_patterns) \<in> set patterns"
  "(''roll_number'', roll_number_patterns) \<in> set patterns"
  "(''degree'', degree_patterns) \<in> set patterns"
  "(''issue_year'', issue_year_patterns) \<in> set patterns"
  "(''institution'', institution_patterns) \<in> set patterns"
  "(''grade'', grade_patterns) \<in> set patterns"
  "(''certificate_number'', certificate_number_patterns) \<in> set patterns"
  by (simp_all add: patterns_def)

lemma dict_lookup:
  "dict_exclude_none c ''name'' = map_option Str (name c)"
  "dict_exclude_none c ''roll_number'' = map_option Str (roll_number c)"
  "dict_exclude_none c ''degree'' = map_option Str (degree c)"
  "dict_exclude_none c ''issue_year'' = map_option Str (issue_year c)"
  "dict_exclude_none c ''institution'' = map_option Str (institution c)"
  "dict_exclude_none c ''grade'' = map_option Str (grade c)"
  "dict_exclude_none c ''specialization'' = map_option Str (specialization c)"
  "dict_exclude_none c ''certificate_number'' = map_option Str (certificate_number c)"
  by (simp_all add: dict_exclude_none_def)

lemma parse_credentials_Inr:
  "parse_credentials raw = Inr m \<Longrightarrow>
     \<exists>c c'. extract_fields patterns (lower raw) ExtractedCredential = Inr c \<and>
         post_process_fields c raw = Inr c' \<and> m = dict_exclude_none c'"
  by (auto simp: parse_credentials_def split: sum.splits)

lemma pass_value:
  assumes "extract_fields patterns t ExtractedCredential = Inr c" and "(f, ps) \<in> set patterns"
    and "getattr c f = Some v"
  shows "v \<noteq> [] \<and> (\<exists>g. v = clean_extracted_value g f)"
proof -
  have "try_patterns f ps t = Inr (Some v)"
    using field_pass [OF assms(1,2)] assms(3) by simp
  then show ?thesis by (rule accepted_value)
qed


section \<open>What a match can hold\<close>

text \<open>Every state the matcher reaches lies further along the same text, and what group 1
  holds there was read from that text.\<close>

definition reach :: "mstate \<Rightarrow> mstate \<Rightarrow> bool" where
  "reach st st' \<longleftrightarrow>
     (\<exists>w. rest st = w @ rest st') \<and>
     (grp st' = grp st \<or> (\<exists>g. grp st' = Some g \<and> set g \<subseteq> set (rest st)))"

definition sound :: "(mstate \<Rightarrow> mstate list) \<Rightarrow> bool" where
  "sound f \<longleftrightarrow> (\<forall>st st'. st' \<in> set (f st) \<longrightarrow> reach st st')"

lemma reach_refl: "reach st st"
  by (simp add: reach_def)

lemma reach_trans:
  assumes "reach a b" "reach b c"
  shows "reach a c"
proof -
  from assms obtain w w' where w: "rest a = w @ rest b" "rest b = w' @ rest c"
    by (auto simp: reach_def)
  then have 1: "rest a = (w @ w') @ rest c" by simp
  have sub: "set (rest b) \<subseteq> set (rest a)" using w by auto
  have 2: "grp c = grp a \<or> (\<exists>g. grp c = Some g \<and> set g \<subseteq> set (rest a))"
    using assms sub unfolding reach_def by (metis subset_trans)
  from 1 2 show ?thesis unfolding reach_def by blast
qed

lemma reach_length: "reach st st' \<Longrightarrow> length (rest st') \<le> length (rest st)"
  by (auto simp: reach_def)

lemma soundD: "sound f \<Longrightarrow> st' \<in> set (f st) \<Longrightarrow> reach st st'"
  by (simp add: sound_def)

lemma sound_step1: "sound (step1 p)"
  unfolding sound_def
proof (intro allI impI)
  fix st st' assume "st' \<in> set (step1 p st)"
  then have "\<exists>c cs. rest st = c # cs \<and> st' = st\<lparr>prev := Some c, rest := cs\<rparr>"
    by (cases "rest st") (auto simp: step1_def split: if_splits)
  then obtain c cs where "rest st = c # cs" "st' = st\<lparr>prev := Some c, rest := cs\<rparr>"
    by blast
  then have "rest st = [c] @ rest st'" "grp st' = grp st" by simp_all
  then show "reach st st'" unfolding reach_def by blast
qed

lemma sound_lit: "sound (lit ic cs)"
proof (induction cs)
  case Nil
  show ?case by (simp add: sound_def reach_refl)
next
  case (Cons c cs)
  show ?case
    unfolding sound_def
  proof (intro allI impI)
    fix st st' assume "st' \<in> set (lit ic (c # cs) st)"
    then obtain st1 where "st1 \<in> set (step1 (chr_eq ic c) st)" "st' \<in> set (lit ic cs st1)"
      by auto
    then show "reach st st'"
      using soundD [OF sound_step1] soundD [OF Cons] reach_trans by blast
  qed
qed

lemma sound_star: "sound f \<Longrightarrow> sound (star n f)"
proof (induction n)
  case 0
  show ?case by (simp add: sound_def reach_refl)
next
  case (Suc n)
  show ?case
    unfolding sound_def
  proof (intro allI impI)
    fix st st' assume a: "st' \<in> set (star (Suc n) f st)"
    show "reach st st'"
    proof (cases "st' = st")
      case True
      then show ?thesis by (simp add: reach_refl)
    next
      case False
      with a obtain st1 where "st1 \<in> set (f st)" "st' \<in> set (star n f st1)"
        by (auto split: if_splits)
      then show ?thesis
        using soundD [OF Suc.prems] soundD [OF Suc.IH [OF Suc.prems]] reach_trans by blast
    qed
  qed
qed

lemma sound_lazy: "sound f \<Longrightarrow> sound (lazy n f)"
proof (induction n)
  case 0
  show ?case by (simp add: sound_def reach_refl)
next
  case (Suc n)
  show ?case
    unfolding sound_def
  proof (intro allI impI)
    fix st st' assume a: "st' \<in> set (lazy (Suc n) f st)"
    show "reach st st'"
    proof (cases "st' = st")
      case True
      then show ?thesis by (simp add: reach_refl)
    next
      case False
      with a obtain st1 where "st1 \<in> set (f st)" "st' \<in> set (lazy n f st1)"
        by (auto split: if_splits)
      then show ?thesis
        using soundD [OF Suc.prems] soundD [OF Suc.IH [OF Suc.prems]] reach_trans by blast
    qed
  qed
qed

lemma sound_times: "sound f \<Longrightarrow> sound (times n f)"
proof (induction n)
  case 0
  show ?case by (simp add: sound_def reach_refl)
next
  case (Suc n)
  show ?case
    unfolding sound_def
  proof (intro allI impI)
    fix st st' assume "st' \<in> set (times (Suc n) f st)"
    then obtain st1 where "st1 \<in> set (f st)" "st' \<in> set (times n f st1)"
      by auto
    then show "reach st st'"
      using soundD [OF Suc.prems] soundD [OF Suc.IH [OF Suc.prems]] reach_trans by blast
  qed
qed

lemma sound_upto: "sound f \<Longrightarrow> sound (upto n f)"
proof (induction n)
  case 0
  show ?case by (simp add: sound_def reach_refl)
next
  case (Suc n)
  show ?case
    unfolding sound_def
  proof (intro allI impI)
    fix st st' assume a: "st' \<in> set (upto (Suc n) f st)"
    show "reach st st'"
    proof (cases "st' = st")
      case True
      then show ?thesis by (simp add: reach_refl)
    next
      case False
      with a obtain st1 where "st1 \<in> set (f st)" "st' \<in> set (upto n f st1)"
        by auto
      then show ?thesis
        using soundD [OF Suc.prems] soundD [OF Suc.IH [OF Suc.prems]] reach_trans by blast
    qed
  qed
qed

lemma sound_seq:
  assumes "sound f" "sound g"
  shows "sound (\<lambda>st. concat (map g (f st)))"
  unfolding sound_def
proof (intro allI impI)
  fix st st' assume "st' \<in> set (concat (map g (f st)))"
  then obtain st1 where "st1 \<in> set (f st)" "st' \<in> set (g st1)" by auto
  then show "reach st st'"
    using soundD [OF assms(1)] soundD [OF assms(2)] reach_trans by blast
qed

lemma reach_capture: "reach st st1 \<Longrightarrow> reach st (capture st st1)"
  by (auto simp: reach_def capture_def dest: in_set_takeD)

lemma sound_ms: "sound (ms r ic ml)"
proof (induction r)
  case (Lit cs)
  have "ms (Lit cs) ic ml = lit ic cs" by (rule ext) simp
  then show ?case by (simp add: sound_lit)
next
  case (Cls items)
  have "ms (Cls items) ic ml = step1 (cls_match ic items)" by (rule ext) simp
  then show ?case by (simp add: sound_step1)
next
  case (NCls items)
  have "ms (NCls items) ic ml = step1 (\<lambda>x. \<not> cls_match ic items x)" by (rule ext) simp
  then show ?case by (simp add: sound_step1)
next
  case Dot
  have "ms Dot ic ml = step1 (\<lambda>x. x \<noteq> Lat nl)" by (rule ext) simp
  then show ?case by (simp add: sound_step1)
next
  case Bol
  show ?case by (auto simp: sound_def reach_refl)
next
  case Eol
  show ?case by (auto simp: sound_def reach_refl)
next
  case (Seq a b)
  have "ms (Seq a b) ic ml = (\<lambda>st. concat (map (ms b ic ml) (ms a ic ml st)))" by (rule ext) simp
  then show ?case using sound_seq [OF Seq.IH] by simp
next
  case (Alt a b)
  then show ?case by (auto simp: sound_def)
next
  case (Star a)
  show ?case
    unfolding sound_def
  proof (intro allI impI)
    fix st st' assume "st' \<in> set (ms (Star a) ic ml st)"
    then show "reach st st'" using soundD [OF sound_star [OF Star.IH]] by simp
  qed
next
  case (Lazy a)
  show ?case
    unfolding sound_def
  proof (intro allI impI)
    fix st st' assume "st' \<in> set (ms (Lazy a) ic ml st)"
    then show "reach st st'" using soundD [OF sound_lazy [OF Lazy.IH]] by simp
  qed
next
  case (Opt a)
  then show ?case by (auto simp: sound_def reach_refl)
next
  case (Rep m n a)
  have "ms (Rep m n a) ic ml = (\<lambda>st. concat (map (upto (n - m) (ms a ic ml)) (times m (ms a ic ml) st)))"
    by (rule ext) simp
  then show ?case
    using sound_seq [OF sound_times [OF Rep.IH] sound_upto [OF Rep.IH]] by simp
next
  case (Grp a)
  then show ?case by (auto simp: sound_def reach_capture)
qed

lemma ms_reach: "st' \<in> set (ms r ic ml st) \<Longrightarrow> reach st st'"
  using sound_ms by (rule soundD)

lemma search_from_sub:
  "search_from r ic ml p s = Some m \<Longrightarrow>
     set (m_whole m) \<subseteq> set s \<and> set (m_post m) \<subseteq> set s \<and> (\<forall>g. m_grp m = Some g \<longrightarrow> set g \<subseteq> set s)"
proof (induction r ic ml p s rule: search_from.induct)
  case (1 r ic ml p s)
  show ?case
  proof (cases "ms r ic ml \<lparr>prev = p, rest = s, grp = None\<rparr>")
    case Nil
    with "1.prems" obtain c cs where s: "s = c # cs" and m: "search_from r ic ml (Some c) cs = Some m"
      by (subst (asm) search_from.simps) (auto split: list.splits)
    from "1.IH" [OF Nil s m] s show ?thesis by auto
  next
    case (Cons st' sts)
    then have "reach \<lparr>prev = p, rest = s, grp = None\<rparr> st'"
      using ms_reach [of st' r ic ml "\<lparr>prev = p, rest = s, grp = None\<rparr>"] by simp
    then have r: "\<exists>w. s = w @ rest st'" "grp st' = None \<or> (\<exists>g. grp st' = Some g \<and> set g \<subseteq> set s)"
      by (auto simp: reach_def)
    from "1.prems" Cons have m: "m = \<lparr>m_whole = take (length s - length (rest st')) s,
                         m_grp = grp st', m_post = rest st'\<rparr>"
      by (subst (asm) search_from.simps) simp
    from r m show ?thesis by (auto dest: in_set_takeD)
  qed
qed

lemma search_grp_sub: "search r ic ml s = Some m \<Longrightarrow> m_grp m = Some g \<Longrightarrow> set g \<subseteq> set s"
  using search_from_sub [of r ic ml None s m] by (simp add: search_def)

lemma sub_from_set: "set (sub_from r ic repl p s) \<subseteq> set repl \<union> set s"
proof (induction r ic repl p s rule: sub_from.induct)
  case (1 r ic repl p s)
  let ?hit = "(case ms r ic False \<lparr>prev = p, rest = s, grp = None\<rparr> of
              st' # _ \<Rightarrow> if length (rest st') < length s then Some st' else None
            | [] \<Rightarrow> None)"
  show ?case
  proof (cases ?hit)
    case None
    show ?thesis
    proof (cases s)
      case Nil
      with None show ?thesis by (subst sub_from.simps) simp
    next
      case (Cons c cs)
      from "1.IH"(1) [OF None Cons] have "set (sub_from r ic repl (Some c) cs) \<subseteq> set repl \<union> set cs" .
      with None Cons show ?thesis by (subst sub_from.simps) auto
    qed
  next
    case (Some st')
    then have "st' \<in> set (ms r ic False \<lparr>prev = p, rest = s, grp = None\<rparr>)"
      by (auto split: list.splits if_splits)
    then have "reach \<lparr>prev = p, rest = s, grp = None\<rparr> st'" by (rule ms_reach)
    then have sub: "set (rest st') \<subseteq> set s" by (auto simp: reach_def)
    from "1.IH"(2) [OF Some] have "set (sub_from r ic repl (prev st') (rest st')) \<subseteq> set repl \<union> set (rest st')" .
    with Some sub show ?thesis by (subst sub_from.simps) auto
  qed
qed

lemma re_sub_set: "set (re_sub r ic repl s) \<subseteq> set repl \<union> set s"
  by (simp add: re_sub_def sub_from_set)

lemma strip_set: "set (strip s) \<subseteq> set s"
proof
  fix x assume "x \<in> set (strip s)"
  then have "x \<in> set (dropWhile py_space (rev (dropWhile py_space s)))"
    by (simp add: strip_def)
  then have "x \<in> set (rev (dropWhile py_space s))" by (rule set_dropWhileD)
  then have "x \<in> set (dropWhile py_space s)" by simp
  then show "x \<in> set s" by (rule set_dropWhileD)
qed

section \<open>The first surviving pattern\<close>




section \<open>What post-processing touches\<close>

lemma setattr_keeps:
  "specialization (setattr c f v) = specialization c" "raw_text (setattr c f v) = raw_text c"
  by (simp_all add: setattr_def)

lemma extract_fields_keeps:
  "extract_fields pats t c0 = Inr c \<Longrightarrow>
     specialization c = specialization c0 \<and> raw_text c = raw_text c0"
proof (induction pats arbitrary: c0)
  case Nil
  then show ?case by simp
next
  case (Cons fp pats)
  obtain f ps where fp: "fp = (f, ps)" by (cases fp)
  from Cons.prems fp show ?case
    by (auto simp: setattr_keeps split: sum.splits option.splits dest!: Cons.IH)
qed

lemma post_process_other:
  assumes "post_process_fields c raw = Inr c'"
  shows "raw_text c' = raw_text c"
    and "(degree c' = degree c \<and> specialization c' = specialization c) \<or>
         (\<exists>d mt g. degree c = Some d \<and> d \<noteq> [] \<and> search spec_re True False d = Some mt \<and>
                   m_grp mt = Some g \<and> specialization c' = Some (strip g) \<and>
                   degree c' = Some (strip (re_sub spec_re True [] d)))"
  using assms
  by (auto simp: post_process_fields_def Let_def falsy_def split: option.splits if_splits)

lemma dict_cases:
  assumes "dict_exclude_none c k = Some (Str v)"
  shows "(k = ''name'' \<and> name c = Some v) \<or> (k = ''roll_number'' \<and> roll_number c = Some v) \<or>
         (k = ''degree'' \<and> degree c = Some v) \<or> (k = ''issue_year'' \<and> issue_year c = Some v) \<or>
         (k = ''institution'' \<and> institution c = Some v) \<or> (k = ''grade'' \<and> grade c = Some v) \<or>
         (k = ''specialization'' \<and> specialization c = Some v) \<or>
         (k = ''certificate_number'' \<and> certificate_number c = Some v) \<or>
         (k = ''raw_text'' \<and> raw_text c = Some v)"
  using assms by (auto simp: dict_exclude_none_def split: if_splits)

lemma py_year_digits:
  "1950 \<le> year \<Longrightarrow> year \<le> 2030 \<Longrightarrow>
     length (py (str_of_nat year)) = 4 \<and>
     (\<forall>ch\<in>set (py (str_of_nat year)). \<exists>d. is_digit d \<and> ch = Lat d)"
  using str_of_nat_year [of year] by (auto simp: py_def)


section \<open>Where the characters of a value come from\<close>

lemma lower_char_not_upper: "\<not> is_upper (lower_char c)"
proof (cases c)
  case (Char b0 b1 b2 b3 b4 b5 b6 b7)
  show ?thesis
  proof (cases "is_upper c")
    case True
    then have "lower_char c = Char b0 b1 b2 b3 b4 True b6 b7"
      using Char by (simp add: lower_char_def)
    then show ?thesis using is_upper_bits [of b0 b1 b2 b3 b4 True b6 b7] by auto
  next
    case False
    then show ?thesis by (simp add: lower_char_def)
  qed
qed

lemma lower_latin_no_upper:
  assumes "\<forall>x\<in>set s. \<exists>a. x = Lat a" and "ch \<in> set (lower s)"
  shows "\<not> py_upper ch"
proof -
  from assms(2) obtain x where x: "x \<in> set s" "ch \<in> set (py_lower x)"
    by (auto simp: lower_def)
  with assms(1) obtain a where "x = Lat a" by blast
  with x(2) show ?thesis by (simp add: py_lower_def py_upper_def lower_char_not_upper)
qed

lemma digit_not_upper: "is_digit d \<Longrightarrow> \<not> is_upper d"
  by (auto simp: is_digit_def is_upper_def d09_def AZ_def latin_uppers_def)

lemma space_not_upper: "\<not> is_upper CHR '' ''"
  by (simp add: is_upper_def AZ_def latin_uppers_def)

lemma str_of_nat_digits: "ch \<in> set (str_of_nat n) \<Longrightarrow> is_digit ch"
proof (induction n arbitrary: ch rule: str_of_nat.induct)
  case (1 n)
  show ?case
  proof (cases "n < 10")
    case True
    with "1.prems" show ?thesis
      by (subst (asm) str_of_nat.simps) (simp add: digit_char_digit)
  next
    case False
    with "1.prems" have "ch \<in> set (str_of_nat (n div 10)) \<or> ch = digit_char (n mod 10)"
      by (subst (asm) str_of_nat.simps) auto
    then show ?thesis
      using "1.IH" [OF False] digit_char_digit [of "n mod 10"] by auto
  qed
qed

lemma generic_clean_set: "set (generic_clean g) \<subseteq> insert (Lat CHR '' '') (set g)"
proof -
  have "set (generic_clean g) \<subseteq> set (re_sub ws_re False (py '' '') (strip g))"
    using re_sub_set [of junk_re False "[]"] by (simp add: generic_clean_def)
  also have "\<dots> \<subseteq> set (py '' '') \<union> set (strip g)" by (rule re_sub_set)
  also have "\<dots> \<subseteq> insert (Lat CHR '' '') (set g)" using strip_set [of g] by (auto simp: py_def)
  finally show ?thesis .
qed

text \<open>What a cleaned value is made of: characters of the candidate, the space that stands
  for a run of whitespace, and the digits of a year.\<close>

definition made_of :: "pystr \<Rightarrow> pychar \<Rightarrow> bool" where
  "made_of t ch \<longleftrightarrow> ch \<in> set t \<or> ch = Lat CHR '' '' \<or> (\<exists>d. is_digit d \<and> ch = Lat d)"

lemma made_of_mono: "set s \<subseteq> set t \<Longrightarrow> made_of s ch \<Longrightarrow> made_of t ch"
  by (auto simp: made_of_def)

lemma made_of_upper: "made_of t ch \<Longrightarrow> py_upper ch \<Longrightarrow> ch \<in> set t"
  by (auto simp: made_of_def py_upper_def space_not_upper digit_not_upper)

lemma clean_made_of:
  assumes "ch \<in> set (clean_extracted_value g f)"
  shows "made_of g ch"
proof -
  have gc: "made_of g x" if "x \<in> set (generic_clean g)" for x
    using that generic_clean_set [of g] by (auto simp: made_of_def)
  have hon: "made_of g x" if "x \<in> set (re_sub honorific_re True [] (generic_clean g))" for x
    using that re_sub_set [of honorific_re True "[]" "generic_clean g"] gc by auto
  from assms consider "ch \<in> set (generic_clean g)"
    | "ch \<in> set (re_sub honorific_re True [] (generic_clean g))"
    | year where "ch \<in> set (py (str_of_nat year))"
    by (auto simp: clean_extracted_value_def Let_def split: if_splits option.splits)
  then show ?thesis
  proof cases
    case 1 then show ?thesis by (rule gc)
  next
    case 2 then show ?thesis by (rule hon)
  next
    case 3
    then obtain d where "d \<in> set (str_of_nat year)" "ch = Lat d" by (auto simp: py_def)
    then show ?thesis using str_of_nat_digits by (auto simp: made_of_def)
  qed
qed

lemma pattern_value_made_of:
  assumes "pattern_value f p t = Inr v" and "ch \<in> set v"
  shows "made_of t ch"
proof -
  from assms obtain m g where m: "search p True True t = Some m" "m_grp m = Some g"
    and v: "v = clean_extracted_value (strip g) f"
    by (auto simp: pattern_value_def split: option.splits)
  have "set (strip g) \<subseteq> set t"
    using search_grp_sub [OF m] strip_set [of g] by auto
  moreover have "made_of (strip g) ch" using assms(2) v clean_made_of by blast
  ultimately show ?thesis by (rule made_of_mono)
qed

lemma pass_value_made_of:
  assumes "extract_fields patterns t ExtractedCredential = Inr c"
    and "getattr c f = Some v" and "ch \<in> set v"
  shows "made_of t ch"
proof -
  from assms(2) have "f \<in> fst ` set patterns"
    by (auto simp: getattr_def patterns_def split: if_splits)
  then obtain ps where ps: "(f, ps) \<in> set patterns" by auto
  have "try_patterns f ps t = Inr (Some v)"
    using field_pass [OF assms(1) ps] assms(2) by simp
  then obtain i where "pattern_value f (ps ! i) t = Inr v"
    unfolding try_patterns_accept by blast
  then show ?thesis using assms(3) by (rule pattern_value_made_of)
qed

lemma map_value_made_of:
  assumes p: "parse_credentials raw = Inr m" and k: "k \<noteq> ''institution''"
    and w: "m k = Some (Str w)" and ch: "ch \<in> set w"
  shows "made_of (lower raw) ch"
proof -
  from parse_credentials_Inr [OF p] obtain c c' where
    run: "extract_fields patterns (lower raw) ExtractedCredential = Inr c" and
    post: "post_process_fields c raw = Inr c'" and
    m: "m = dict_exclude_none c'" by blast
  note keep = post_process_keeps [OF post]
  note other = post_process_other [OF post]
  have from_pass: "made_of (lower raw) x" if "getattr c f = Some y" "x \<in> set y" for f x y
    using pass_value_made_of [OF run that] .
  have init: "specialization c = None" "raw_text c = None"
    using extract_fields_keeps [OF run] by (simp_all add: ExtractedCredential_def)
  have deg: "made_of (lower raw) x" if "degree c = Some d" "x \<in> set d" for d x
    using from_pass [of "''degree''" d x] that by (simp add: getattr_def)
  from w m have "dict_exclude_none c' k = Some (Str w)" by simp
  from dict_cases [OF this] k consider
      "name c = Some w" | "roll_number c = Some w" | "issue_year c = Some w" | "grade c = Some w"
    | "certificate_number c = Some w" | "degree c' = Some w" | "specialization c' = Some w"
    | "raw_text c' = Some w"
    by (auto simp: keep)
  then show ?thesis
  proof cases
    case 1 then show ?thesis using from_pass [of "''name''" w ch] ch by (simp add: getattr_def)
  next
    case 2 then show ?thesis using from_pass [of "''roll_number''" w ch] ch by (simp add: getattr_def)
  next
    case 3 then show ?thesis using from_pass [of "''issue_year''" w ch] ch by (simp add: getattr_def)
  next
    case 4 then show ?thesis using from_pass [of "''grade''" w ch] ch by (simp add: getattr_def)
  next
    case 5 then show ?thesis using from_pass [of "''certificate_number''" w ch] ch
      by (simp add: getattr_def)
  next
    case 6
    from other(2) show ?thesis
    proof
      assume "degree c' = degree c \<and> specialization c' = specialization c"
      with 6 have "degree c = Some w" by simp
      then show ?thesis using ch by (rule deg)
    next
      assume "\<exists>d mt g. degree c = Some d \<and> d \<noteq> [] \<and> search spec_re True False d = Some mt \<and>
                   m_grp mt = Some g \<and> specialization c' = Some (strip g) \<and>
                   degree c' = Some (strip (re_sub spec_re True [] d))"
      then obtain d where d: "degree c = Some d" "degree c' = Some (strip (re_sub spec_re True [] d))"
        by blast
      have "set w \<subseteq> set d"
        using 6 d strip_set [of "re_sub spec_re True [] d"] re_sub_set [of spec_re True "[]" d] by auto
      with ch have "ch \<in> set d" by blast
      with d(1) show ?thesis by (rule deg)
    qed
  next
    case 7
    from other(2) show ?thesis
    proof
      assume "degree c' = degree c \<and> specialization c' = specialization c"
      with 7 init show ?thesis by simp
    next
      assume "\<exists>d mt g. degree c = Some d \<and> d \<noteq> [] \<and> search spec_re True False d = Some mt \<and>
                   m_grp mt = Some g \<and> specialization c' = Some (strip g) \<and>
                   degree c' = Some (strip (re_sub spec_re True [] d))"
      then obtain d mt g where d: "degree c = Some d" "search spec_re True False d = Some mt"
        "m_grp mt = Some g" "specialization c' = Some (strip g)" by blast
      have "set w \<subseteq> set d"
        using 7 d strip_set [of g] search_grp_sub [OF d(2,3)] by auto
      with ch have "ch \<in> set d" by blast
      with d(1) show ?thesis by (rule deg)
    qed
  next
    case 8
    with other(1) init show ?thesis by simp
  qed
qed

section \<open>The year rule\<close>























section \<open>Claims about the field parser\<close>

definition example_text :: pystr where
  "example_text = py ''This is to certify that John Smith has completed Bachelor of Science in Physics in the year 2015 from ABC University''"

definition example_fields :: credential where
  "example_fields = ExtractedCredential\<lparr>degree := Some (py ''science''),
     issue_year := Some (py ''2015''), institution := Some (py ''abc university''),
     specialization := Some (py ''physics in the year'')\<rparr>"

lemma example_run:
  "(case extract_fields patterns (lower example_text) ExtractedCredential of
      Inl e \<Rightarrow> Inl e
    | Inr c \<Rightarrow> post_process_fields c example_text) = Inr example_fields"
  by code_simp

lemma example_parse: "parse_credentials example_text = Inr (dict_exclude_none example_fields)"
  using example_run by (auto simp: parse_credentials_def split: sum.splits)

text \<open>
  C1 (as the code has it). For the raw text "This is to certify that John Smith has
  completed Bachelor of Science in Physics in the year 2015 from ABC University" the parser
  returns a field map with degree "science", specialization "physics in the year",
  issue_year "2015" and institution "abc university". The name is absent: the only
  candidate, everything between "that" and the year, is 67 characters long and the
  length rule rejects it. roll_number, grade and certificate_number are absent too.
\<close>

theorem example_text_fields:
  "\<exists>m. parse_credentials example_text = Inr m \<and>
       m ''name'' = None \<and>
       m ''degree'' = Some (Str (py ''science'')) \<and>
       m ''specialization'' = Some (Str (py ''physics in the year'')) \<and>
       m ''issue_year'' = Some (Str (py ''2015'')) \<and>
       m ''institution'' = Some (Str (py ''abc university'')) \<and>
       m ''roll_number'' = None \<and> m ''grade'' = None \<and> m ''certificate_number'' = None"
  by (simp add: example_parse dict_exclude_none_def example_fields_def ExtractedCredential_def)

text \<open>
  C1 as stated fails: the field map has no name at all, so in particular not
  "John Smith", and its specialization is not "Physics".
\<close>

theorem example_text_counterexample:
  "\<not> (\<exists>m. parse_credentials example_text = Inr m \<and>
          m ''name'' = Some (Str (py ''John Smith'')) \<and>
          (\<exists>d. m ''degree'' = Some (Str d) \<and> sublist (py ''Bachelor of Science'') d) \<and>
          m ''specialization'' = Some (Str (py ''Physics'')) \<and>
          m ''issue_year'' = Some (Str (py ''2015'')) \<and>
          (\<exists>i. m ''institution'' = Some (Str i) \<and> sublist (py ''ABC University'') i))"
  by (simp add: example_parse dict_exclude_none_def example_fields_def ExtractedCredential_def)

lemma honorific_run:
  "extract_fields patterns (lower (py ''mr. smith'')) ExtractedCredential = Inl AttributeError"
  by code_simp

text \<open>
  C2 (the code at the failing input). The third name pattern is
  \<open>mr\.|ms\.|miss\s+([a-zA-Z\s\.]+)\<close>: its first two branches match without the group, so on
  the text "mr. smith" \<open>match.group(1)\<close> is \<open>None\<close> and \<open>.strip()\<close> raises
  \<open>AttributeError\<close>; the parser returns no field map.
\<close>

theorem parse_honorific_raises: "parse_credentials (py ''mr. smith'') = Inl AttributeError"
  by (simp add: parse_credentials_def honorific_run)






definition degree_text :: pystr where
  "degree_text = py ''Degree Programme in Arts''"

definition degree_fields :: credential where
  "degree_fields = ExtractedCredential\<lparr>degree := Some [], specialization := Some (py ''arts'')\<rparr>"

lemma degree_run:
  "(case extract_fields patterns (lower degree_text) ExtractedCredential of
      Inl e \<Rightarrow> Inl e
    | Inr c \<Rightarrow> post_process_fields c degree_text) = Inr degree_fields"
  by code_simp

lemma degree_parse: "parse_credentials degree_text = Inr (dict_exclude_none degree_fields)"
  using degree_run by (auto simp: parse_credentials_def split: sum.splits)

text \<open>
  C9 as stated fails: on "Degree Programme in Arts" the candidate "in arts" is accepted
  for degree, post-processing moves "arts" to specialization and stores what is left of
  the degree, the empty string, a value the acceptance test of the pattern pass turns
  down.
\<close>

theorem degree_stored_empty:
  "\<exists>m. parse_credentials degree_text = Inr m \<and> m ''degree'' = Some (Str []) \<and>
       m ''specialization'' = Some (Str (py ''arts''))"
  by (simp add: degree_parse dict_lookup degree_fields_def ExtractedCredential_def)

definition card_text :: pystr where
  "card_text = py ''Name: Ravi Kumar, Roll No: CS/2015/042, Year: 2021, Degree of Arts in History''"

definition card_pass_fields :: credential where
  "card_pass_fields = ExtractedCredential\<lparr>name := Some (py ''ravi kumar''),
     roll_number := Some (py ''cs/2015/042''), degree := Some (py ''arts in history''),
     issue_year := Some (py ''2021'')\<rparr>"

definition card_fields :: credential where
  "card_fields = card_pass_fields\<lparr>degree := Some (py ''arts''),
     specialization := Some (py ''history'')\<rparr>"

lemma card_pass: "extract_fields patterns (lower card_text) ExtractedCredential = Inr card_pass_fields"
  by code_simp

lemma card_post: "post_process_fields card_pass_fields card_text = Inr card_fields"
  by code_simp

lemma card_parse: "parse_credentials card_text = Inr (dict_exclude_none card_fields)"
  by (simp add: parse_credentials_def card_pass card_post)

text \<open>
  C9 (as the code has it). In the field map the parser returns, a name is the
  honorific-stripped cleaning of some candidate and at most 50 characters long; a roll
  number matches \<open>^[a-zA-Z0-9\/\-]{2,20}$\<close>; an issue year is the decimal string of a number
  in [1950, 2030], four digits long. Every value under name, roll_number, issue_year,
  institution (whether from the pattern pass or from post-processing), grade and
  certificate_number is a non-empty result of \<open>_clean_extracted_value\<close> for that field.
  A degree is an accepted degree candidate \<open>d\<close> (non-empty, cleaned) or, where \<open>d\<close> has an
  "in/of" clause, \<open>d\<close> with these clauses cut out, which can be empty; a specialization is
  the stripped group of the first such clause of \<open>d\<close>.
\<close>

theorem stored_values_valid:
  assumes "parse_credentials raw = Inr m"
  shows "(\<forall>v. m ''name'' = Some (Str v) \<longrightarrow>
            length v \<le> 50 \<and> (\<exists>g. v = re_sub honorific_re True [] (generic_clean g))) \<and>
         (\<forall>v. m ''roll_number'' = Some (Str v) \<longrightarrow> match_start roll_re False False v \<noteq> None) \<and>
         (\<forall>v. m ''issue_year'' = Some (Str v) \<longrightarrow>
            (\<exists>year. 1950 \<le> year \<and> year \<le> 2030 \<and> v = py (str_of_nat year)) \<and>
            length v = 4 \<and> (\<forall>ch\<in>set v. \<exists>d. is_digit d \<and> ch = Lat d)) \<and>
         (\<forall>k v. k \<in> {''name'', ''roll_number'', ''issue_year'', ''institution'', ''grade'',
                        ''certificate_number''} \<longrightarrow>
            m k = Some (Str v) \<longrightarrow> v \<noteq> [] \<and> (\<exists>g. v = clean_extracted_value g k)) \<and>
         (\<forall>v. m ''degree'' = Some (Str v) \<longrightarrow>
            (\<exists>d. d \<noteq> [] \<and> (\<exists>g. d = clean_extracted_value g ''degree'') \<and>
                 (v = d \<or> (search spec_re True False d \<noteq> None \<and>
                            v = strip (re_sub spec_re True [] d))))) \<and>
         (\<forall>v. m ''specialization'' = Some (Str v) \<longrightarrow>
            (\<exists>d mt g. d \<noteq> [] \<and> (\<exists>g'. d = clean_extracted_value g' ''degree'') \<and>
                 search spec_re True False d = Some mt \<and> m_grp mt = Some g \<and> v = strip g))"
proof -
  from parse_credentials_Inr [OF assms] obtain c c' where
    run: "extract_fields patterns (lower raw) ExtractedCredential = Inr c" and
    post: "post_process_fields c raw = Inr c'" and
    m: "m = dict_exclude_none c'" by blast
  note keep = post_process_keeps [OF post]
  note other = post_process_other [OF post]
  have init: "specialization c = None"
    using extract_fields_keeps [OF run] by (simp add: ExtractedCredential_def)
  have n: "v \<noteq> [] \<and> (\<exists>g. v = clean_extracted_value g ''name'')"
    if "m ''name'' = Some (Str v)" for v
  proof -
    from that m have "getattr c ''name'' = Some v"
      by (auto simp: dict_lookup keep getattr_def)
    then show ?thesis by (rule pass_value [OF run patterns_mem(1)])
  qed
  have r: "v \<noteq> [] \<and> (\<exists>g. v = clean_extracted_value g ''roll_number'')"
    if "m ''roll_number'' = Some (Str v)" for v
  proof -
    from that m have "getattr c ''roll_number'' = Some v"
      by (auto simp: dict_lookup keep getattr_def)
    then show ?thesis by (rule pass_value [OF run patterns_mem(2)])
  qed
  have y: "v \<noteq> [] \<and> (\<exists>g. v = clean_extracted_value g ''issue_year'')"
    if "m ''issue_year'' = Some (Str v)" for v
  proof -
    from that m have "getattr c ''issue_year'' = Some v"
      by (auto simp: dict_lookup keep getattr_def)
    then show ?thesis by (rule pass_value [OF run patterns_mem(4)])
  qed
  have g: "v \<noteq> [] \<and> (\<exists>g. v = clean_extracted_value g ''grade'')"
    if "m ''grade'' = Some (Str v)" for v
  proof -
    from that m have "getattr c ''grade'' = Some v"
      by (auto simp: dict_lookup keep getattr_def)
    then show ?thesis by (rule pass_value [OF run patterns_mem(6)])
  qed
  have cn: "v \<noteq> [] \<and> (\<exists>g. v = clean_extracted_value g ''certificate_number'')"
    if "m ''certificate_number'' = Some (Str v)" for v
  proof -
    from that m have "getattr c ''certificate_number'' = Some v"
      by (auto simp: dict_lookup keep getattr_def)
    then show ?thesis by (rule pass_value [OF run patterns_mem(7)])
  qed
  have i: "v \<noteq> [] \<and> (\<exists>g. v = clean_extracted_value g ''institution'')"
    if "m ''institution'' = Some (Str v)" for v
  proof -
    from that m have v: "institution c' = Some v" by (auto simp: dict_lookup)
    from post_process_institution [OF post] show ?thesis
    proof
      assume "institution c' = institution c"
      with v have "getattr c ''institution'' = Some v" by (simp add: getattr_def)
      then show ?thesis by (rule pass_value [OF run patterns_mem(5)])
    next
      assume "\<exists>w. find_institution institution_indicators raw = Some w \<and> institution c' = Some w"
      with v have "find_institution institution_indicators raw = Some v" by auto
      from find_institution_Some [OF this] show ?thesis by auto
    qed
  qed
  have dg: "d \<noteq> [] \<and> (\<exists>g. d = clean_extracted_value g ''degree'')" if "degree c = Some d" for d
  proof -
    from that have "getattr c ''degree'' = Some d" by (simp add: getattr_def)
    then show ?thesis by (rule pass_value [OF run patterns_mem(3)])
  qed
  have 1: "length v \<le> 50 \<and> (\<exists>g. v = re_sub honorific_re True [] (generic_clean g))"
    if "m ''name'' = Some (Str v)" for v
    using n [OF that] clean_name [of _ v] by blast
  have 2: "match_start roll_re False False v \<noteq> None" if "m ''roll_number'' = Some (Str v)" for v
    using r [OF that] clean_roll_number [of _ v] by blast
  have 3: "(\<exists>year. 1950 \<le> year \<and> year \<le> 2030 \<and> v = py (str_of_nat year)) \<and>
            length v = 4 \<and> (\<forall>ch\<in>set v. \<exists>d. is_digit d \<and> ch = Lat d)"
    if "m ''issue_year'' = Some (Str v)" for v
  proof -
    from y [OF that] clean_issue_year [of _ v] obtain year where
      "1950 \<le> year" "year \<le> 2030" "v = py (str_of_nat year)" by blast
    with py_year_digits [of year] show ?thesis by blast
  qed
  have 4: "v \<noteq> [] \<and> (\<exists>g. v = clean_extracted_value g k)"
    if "k \<in> {''name'', ''roll_number'', ''issue_year'', ''institution'', ''grade'',
               ''certificate_number''}" "m k = Some (Str v)" for k v
    using that n r y g cn i by blast
  have 5: "\<exists>d. d \<noteq> [] \<and> (\<exists>g. d = clean_extracted_value g ''degree'') \<and>
                 (v = d \<or> (search spec_re True False d \<noteq> None \<and>
                            v = strip (re_sub spec_re True [] d)))"
    if "m ''degree'' = Some (Str v)" for v
  proof -
    from that m have v: "degree c' = Some v" by (auto simp: dict_lookup)
    from other(2) show ?thesis
    proof
      assume "degree c' = degree c \<and> specialization c' = specialization c"
      with v have "degree c = Some v" by simp
      from dg [OF this] show ?thesis by blast
    next
      assume "\<exists>d mt g. degree c = Some d \<and> d \<noteq> [] \<and> search spec_re True False d = Some mt \<and>
                   m_grp mt = Some g \<and> specialization c' = Some (strip g) \<and>
                   degree c' = Some (strip (re_sub spec_re True [] d))"
      then obtain d mt where d: "degree c = Some d" "search spec_re True False d = Some mt"
        "degree c' = Some (strip (re_sub spec_re True [] d))" by blast
      with v have "v = strip (re_sub spec_re True [] d)" by simp
      with dg [OF d(1)] d(2) show ?thesis by auto
    qed
  qed
  have 6: "\<exists>d mt g. d \<noteq> [] \<and> (\<exists>g'. d = clean_extracted_value g' ''degree'') \<and>
                 search spec_re True False d = Some mt \<and> m_grp mt = Some g \<and> v = strip g"
    if "m ''specialization'' = Some (Str v)" for v
  proof -
    from that m have v: "specialization c' = Some v" by (auto simp: dict_lookup)
    from other(2) show ?thesis
    proof
      assume "degree c' = degree c \<and> specialization c' = specialization c"
      with v init show ?thesis by simp
    next
      assume "\<exists>d mt g. degree c = Some d \<and> d \<noteq> [] \<and> search spec_re True False d = Some mt \<and>
                   m_grp mt = Some g \<and> specialization c' = Some (strip g) \<and>
                   degree c' = Some (strip (re_sub spec_re True [] d))"
      then obtain d mt g where d: "degree c = Some d" "search spec_re True False d = Some mt"
        "m_grp mt = Some g" "specialization c' = Some (strip g)" by blast
      with v have "v = strip g" by simp
      with dg [OF d(1)] d(2,3) show ?thesis by blast
    qed
  qed
  have A: "\<forall>v. m ''name'' = Some (Str v) \<longrightarrow>
            length v \<le> 50 \<and> (\<exists>g. v = re_sub honorific_re True [] (generic_clean g))"
    using 1 by blast
  have B: "\<forall>v. m ''roll_number'' = Some (Str v) \<longrightarrow> match_start roll_re False False v \<noteq> None"
    using 2 by blast
  have C: "\<forall>v. m ''issue_year'' = Some (Str v) \<longrightarrow>
            (\<exists>year. 1950 \<le> year \<and> year \<le> 2030 \<and> v = py (str_of_nat year)) \<and>
            length v = 4 \<and> (\<forall>ch\<in>set v. \<exists>d. is_digit d \<and> ch = Lat d)"
    using 3 by blast
  have D: "\<forall>k v. k \<in> {''name'', ''roll_number'', ''issue_year'', ''institution'', ''grade'',
                        ''certificate_number''} \<longrightarrow>
            m k = Some (Str v) \<longrightarrow> v \<noteq> [] \<and> (\<exists>g. v = clean_extracted_value g k)"
    using 4 by blast
  have E: "\<forall>v. m ''degree'' = Some (Str v) \<longrightarrow>
            (\<exists>d. d \<noteq> [] \<and> (\<exists>g. d = clean_extracted_value g ''degree'') \<and>
                 (v = d \<or> (search spec_re True False d \<noteq> None \<and>
                            v = strip (re_sub spec_re True [] d))))"
    using 5 by blast
  have F: "\<forall>v. m ''specialization'' = Some (Str v) \<longrightarrow>
            (\<exists>d mt g. d \<noteq> [] \<and> (\<exists>g'. d = clean_extracted_value g' ''degree'') \<and>
                 search spec_re True False d = Some mt \<and> m_grp mt = Some g \<and> v = strip g)"
    using 6 by blast
  show ?thesis using A B C D E F by (intro conjI) assumption+
qed

theorem stored_values_valid_witness:
  "parse_credentials card_text = Inr (dict_exclude_none card_fields) \<and>
   dict_exclude_none card_fields ''name'' = Some (Str (py ''ravi kumar'')) \<and>
   dict_exclude_none card_fields ''roll_number'' = Some (Str (py ''cs/2015/042'')) \<and>
   dict_exclude_none card_fields ''issue_year'' = Some (Str (py ''2021'')) \<and>
   dict_exclude_none card_fields ''degree'' = Some (Str (py ''arts'')) \<and>
   dict_exclude_none card_fields ''specialization'' = Some (Str (py ''history'')) \<and>
   length (py ''ravi kumar'') \<le> 50 \<and>
   match_start roll_re False False (py ''cs/2015/042'') \<noteq> None \<and>
   (\<exists>year. 1950 \<le> year \<and> year \<le> 2030 \<and> py ''2021'' = py (str_of_nat year)) \<and>
   (\<exists>d. d \<noteq> [] \<and> (py ''arts'' = d \<or> (search spec_re True False d \<noteq> None \<and>
                          py ''arts'' = strip (re_sub spec_re True [] d)))) \<and>
   (\<exists>d mt g. search spec_re True False d = Some mt \<and> m_grp mt = Some g \<and> py ''history'' = strip g)"
proof -
  have n: "dict_exclude_none card_fields ''name'' = Some (Str (py ''ravi kumar''))"
    and r: "dict_exclude_none card_fields ''roll_number'' = Some (Str (py ''cs/2015/042''))"
    and y: "dict_exclude_none card_fields ''issue_year'' = Some (Str (py ''2021''))"
    and d: "dict_exclude_none card_fields ''degree'' = Some (Str (py ''arts''))"
    and s: "dict_exclude_none card_fields ''specialization'' = Some (Str (py ''history''))"
    by (simp_all add: dict_lookup card_fields_def card_pass_fields_def ExtractedCredential_def)
  note sv = stored_values_valid [OF card_parse]
  note nm = sv [THEN conjunct1, rule_format, OF n]
  note rl = sv [THEN conjunct2, THEN conjunct1, rule_format, OF r]
  note yr = sv [THEN conjunct2, THEN conjunct2, THEN conjunct1, rule_format, OF y]
  note dg = sv [THEN conjunct2, THEN conjunct2, THEN conjunct2, THEN conjunct2, THEN conjunct1,
                rule_format, OF d]
  note sp = sv [THEN conjunct2, THEN conjunct2, THEN conjunct2, THEN conjunct2, THEN conjunct2,
                rule_format, OF s]
  have 1: "length (py ''ravi kumar'') \<le> 50" using nm by (rule conjunct1)
  have 2: "match_start roll_re False False (py ''cs/2015/042'') \<noteq> None" by (rule rl)
  have 3: "\<exists>year. 1950 \<le> year \<and> year \<le> 2030 \<and> py ''2021'' = py (str_of_nat year)"
    using yr by (rule conjunct1)
  from dg obtain d0 where "d0 \<noteq> []" "py ''arts'' = d0 \<or> (search spec_re True False d0 \<noteq> None \<and>
                          py ''arts'' = strip (re_sub spec_re True [] d0))" by (elim exE conjE)
  then have 4: "\<exists>d. d \<noteq> [] \<and> (py ''arts'' = d \<or> (search spec_re True False d \<noteq> None \<and>
                          py ''arts'' = strip (re_sub spec_re True [] d)))" by (intro exI conjI)
  from sp obtain d1 mt g where "search spec_re True False d1 = Some mt" "m_grp mt = Some g"
    "py ''history'' = strip g" by (elim exE conjE)
  then have 5: "\<exists>d mt g. search spec_re True False d = Some mt \<and> m_grp mt = Some g \<and>
      py ''history'' = strip g" by (intro exI conjI)
  show ?thesis using card_parse n r y d s 1 2 3 4 5 by (intro conjI) assumption+
qed

text \<open>U+2102, the double-struck capital C: a letter for \<open>str.isalnum\<close>, upper case for
  \<open>str.isupper\<close>, and left as it is by \<open>str.lower\<close>.\<close>

definition double_struck_C :: pychar where
  "double_struck_C = Wide 8450 False True None True [] None"

definition complex_text :: pystr where
  "complex_text = py ''school '' @ [double_struck_C] @ py ''omplex university''"

definition complex_fields :: credential where
  "complex_fields = ExtractedCredential\<lparr>degree := Some (py ''university''),
     institution := Some (double_struck_C # py ''omplex'')\<rparr>"

lemma complex_run:
  "extract_fields patterns (lower complex_text) ExtractedCredential = Inr complex_fields"
  by code_simp

text \<open>
  C10 as stated fails: a letter can be upper case and have no lower-case form. On the
  text "school", U+2102, "omplex university" the first institution pattern accepts the
  value U+2102 "omplex", which begins with an upper-case letter.
\<close>

theorem capital_survives_lower:
  "extract_fields patterns (lower complex_text) ExtractedCredential = Inr complex_fields \<and>
   getattr complex_fields ''institution'' = Some (double_struck_C # py ''omplex'') \<and>
   py_upper double_struck_C \<and>
   (\<exists>ch\<in>set (double_struck_C # py ''omplex''). py_upper ch)"
proof -
  have g: "getattr complex_fields ''institution'' = Some (double_struck_C # py ''omplex'')"
    by (simp add: getattr_def complex_fields_def ExtractedCredential_def)
  have u: "py_upper double_struck_C"
    by (simp add: py_upper_def double_struck_C_def)
  then have e: "\<exists>ch\<in>set (double_struck_C # py ''omplex''). py_upper ch" by simp
  show ?thesis using complex_run g u e by (intro conjI) assumption+
qed

definition campus_text :: pystr where
  "campus_text = py ''2015 ABC University''"

definition campus_fields :: credential where
  "campus_fields = ExtractedCredential\<lparr>degree := Some (py ''university''),
     institution := Some (py ''2015 ABC University'')\<rparr>"

lemma campus_run:
  "(case extract_fields patterns (lower campus_text) ExtractedCredential of
      Inl e \<Rightarrow> Inl e
    | Inr c \<Rightarrow> post_process_fields c campus_text) = Inr campus_fields"
  by code_simp

lemma campus_parse: "parse_credentials campus_text = Inr (dict_exclude_none campus_fields)"
  using campus_run by (auto simp: parse_credentials_def split: sum.splits)

lemma campus_capital:
  "\<exists>raw' m' v'. parse_credentials raw' = Inr m' \<and> m' ''institution'' = Some (Str v') \<and>
      (\<exists>ch\<in>set v'. py_upper ch) \<and> (\<forall>x\<in>set raw'. \<exists>a. x = Lat a)"
proof -
  have "dict_exclude_none campus_fields ''institution'' = Some (Str (py ''2015 ABC University''))"
    by (simp add: dict_lookup campus_fields_def ExtractedCredential_def)
  moreover have "\<exists>ch\<in>set (py ''2015 ABC University''). py_upper ch"
    by (simp add: py_def py_upper_def is_upper_def AZ_def)
  moreover have "\<forall>x\<in>set campus_text. \<exists>a. x = Lat a"
    by (auto simp: campus_text_def py_def)
  ultimately show ?thesis using campus_parse by blast
qed

text \<open>
  C10 (as the code has it). A value the per-field pass accepts is made of characters of
  the lower-cased text, of the space that stands for a run of whitespace and of the digits
  of a year: cleaning removes, collapses and rewrites, it never changes letter case. So an
  upper-case letter in such a value is one that \<open>str.lower\<close> left in the text, and when
  every character of the raw text is below code point 256 there is none. The same holds
  in the field map returned under every key but institution, also for the degree and the
  specialization that post-processing rewrites. An institution that post-processing finds
  is read from the original text and can carry capitals, as "2015 ABC University" does.
\<close>

theorem accepted_values_from_lowered_text:
  "(extract_fields patterns (lower raw) ExtractedCredential = Inr c \<longrightarrow> getattr c field = Some v \<longrightarrow>
      (\<forall>ch\<in>set v. ch \<in> set (lower raw) \<or> ch = Lat CHR '' '' \<or> (\<exists>d. is_digit d \<and> ch = Lat d)) \<and>
      (\<forall>ch\<in>set v. py_upper ch \<longrightarrow> ch \<in> set (lower raw)) \<and>
      ((\<forall>x\<in>set raw. \<exists>a. x = Lat a) \<longrightarrow> (\<forall>ch\<in>set v. \<not> py_upper ch))) \<and>
   (parse_credentials raw = Inr m \<longrightarrow> k \<noteq> ''institution'' \<longrightarrow> m k = Some (Str w) \<longrightarrow>
      (\<forall>ch\<in>set w. ch \<in> set (lower raw) \<or> ch = Lat CHR '' '' \<or> (\<exists>d. is_digit d \<and> ch = Lat d)) \<and>
      (\<forall>ch\<in>set w. py_upper ch \<longrightarrow> ch \<in> set (lower raw)) \<and>
      ((\<forall>x\<in>set raw. \<exists>a. x = Lat a) \<longrightarrow> (\<forall>ch\<in>set w. \<not> py_upper ch))) \<and>
   (\<exists>raw' m' v'. parse_credentials raw' = Inr m' \<and> m' ''institution'' = Some (Str v') \<and>
      (\<exists>ch\<in>set v'. py_upper ch) \<and> (\<forall>x\<in>set raw'. \<exists>a. x = Lat a))"
proof -
  have parts: "(\<forall>ch\<in>set y. ch \<in> set (lower raw) \<or> ch = Lat CHR '' '' \<or> (\<exists>d. is_digit d \<and> ch = Lat d)) \<and>
      (\<forall>ch\<in>set y. py_upper ch \<longrightarrow> ch \<in> set (lower raw)) \<and>
      ((\<forall>x\<in>set raw. \<exists>a. x = Lat a) \<longrightarrow> (\<forall>ch\<in>set y. \<not> py_upper ch))"
    if mo: "\<And>ch. ch \<in> set y \<Longrightarrow> made_of (lower raw) ch" for y
  proof (intro conjI ballI impI)
    fix ch assume "ch \<in> set y"
    then show "ch \<in> set (lower raw) \<or> ch = Lat CHR '' '' \<or> (\<exists>d. is_digit d \<and> ch = Lat d)"
      using mo by (simp add: made_of_def)
  next
    fix ch assume "ch \<in> set y" "py_upper ch"
    then show "ch \<in> set (lower raw)" using mo made_of_upper by blast
  next
    fix ch assume l: "\<forall>x\<in>set raw. \<exists>a. x = Lat a" and ch: "ch \<in> set y"
    show "\<not> py_upper ch"
    proof
      assume u: "py_upper ch"
      with ch mo made_of_upper have "ch \<in> set (lower raw)" by blast
      with l lower_latin_no_upper u show False by blast
    qed
  qed
  have 1: "extract_fields patterns (lower raw) ExtractedCredential = Inr c \<longrightarrow> getattr c field = Some v \<longrightarrow>
      (\<forall>ch\<in>set v. ch \<in> set (lower raw) \<or> ch = Lat CHR '' '' \<or> (\<exists>d. is_digit d \<and> ch = Lat d)) \<and>
      (\<forall>ch\<in>set v. py_upper ch \<longrightarrow> ch \<in> set (lower raw)) \<and>
      ((\<forall>x\<in>set raw. \<exists>a. x = Lat a) \<longrightarrow> (\<forall>ch\<in>set v. \<not> py_upper ch))"
  proof (intro impI)
    assume "extract_fields patterns (lower raw) ExtractedCredential = Inr c" "getattr c field = Some v"
    then have "\<And>ch. ch \<in> set v \<Longrightarrow> made_of (lower raw) ch" by (rule pass_value_made_of)
    then show "(\<forall>ch\<in>set v. ch \<in> set (lower raw) \<or> ch = Lat CHR '' '' \<or> (\<exists>d. is_digit d \<and> ch = Lat d)) \<and>
      (\<forall>ch\<in>set v. py_upper ch \<longrightarrow> ch \<in> set (lower raw)) \<and>
      ((\<forall>x\<in>set raw. \<exists>a. x = Lat a) \<longrightarrow> (\<forall>ch\<in>set v. \<not> py_upper ch))" by (rule parts)
  qed
  have 2: "parse_credentials raw = Inr m \<longrightarrow> k \<noteq> ''institution'' \<longrightarrow> m k = Some (Str w) \<longrightarrow>
      (\<forall>ch\<in>set w. ch \<in> set (lower raw) \<or> ch = Lat CHR '' '' \<or> (\<exists>d. is_digit d \<and> ch = Lat d)) \<and>
      (\<forall>ch\<in>set w. py_upper ch \<longrightarrow> ch \<in> set (lower raw)) \<and>
      ((\<forall>x\<in>set raw. \<exists>a. x = Lat a) \<longrightarrow> (\<forall>ch\<in>set w. \<not> py_upper ch))"
  proof (intro impI)
    assume "parse_credentials raw = Inr m" "k \<noteq> ''institution''" "m k = Some (Str w)"
    then have "\<And>ch. ch \<in> set w \<Longrightarrow> made_of (lower raw) ch" by (rule map_value_made_of)
    then show "(\<forall>ch\<in>set w. ch \<in> set (lower raw) \<or> ch = Lat CHR '' '' \<or> (\<exists>d. is_digit d \<and> ch = Lat d)) \<and>
      (\<forall>ch\<in>set w. py_upper ch \<longrightarrow> ch \<in> set (lower raw)) \<and>
      ((\<forall>x\<in>set raw. \<exists>a. x = Lat a) \<longrightarrow> (\<forall>ch\<in>set w. \<not> py_upper ch))" by (rule parts)
  qed
  show ?thesis using 1 2 campus_capital by (intro conjI) assumption+
qed

theorem accepted_values_from_lowered_text_witness:
  "extract_fields patterns (lower card_text) ExtractedCredential = Inr card_pass_fields \<and>
   getattr card_pass_fields ''name'' = Some (py ''ravi kumar'') \<and>
   parse_credentials card_text = Inr (dict_exclude_none card_fields) \<and>
   ''roll_number'' \<noteq> ''institution'' \<and>
   dict_exclude_none card_fields ''roll_number'' = Some (Str (py ''cs/2015/042'')) \<and>
   \<not> list_ex py_upper (py ''ravi kumar'') \<and> \<not> list_ex py_upper (py ''cs/2015/042'')"
proof -
  have g: "getattr card_pass_fields ''name'' = Some (py ''ravi kumar'')"
    by (simp add: getattr_def card_pass_fields_def ExtractedCredential_def)
  have r: "dict_exclude_none card_fields ''roll_number'' = Some (Str (py ''cs/2015/042''))"
    by (simp add: dict_lookup card_fields_def card_pass_fields_def ExtractedCredential_def)
  have n: "''roll_number'' \<noteq> ''institution''" by simp
  have lat: "\<forall>x\<in>set card_text. \<exists>a. x = Lat a" by (auto simp: card_text_def py_def)
  note inst = accepted_values_from_lowered_text [of card_text card_pass_fields "''name''"
      "py ''ravi kumar''" "dict_exclude_none card_fields" "''roll_number''" "py ''cs/2015/042''"]
  note a = mp [OF mp [OF inst [THEN conjunct1] card_pass] g]
  note b = mp [OF mp [OF mp [OF inst [THEN conjunct2, THEN conjunct1] card_parse] n] r]
  have 1: "\<forall>ch\<in>set (py ''ravi kumar''). \<not> py_upper ch"
    using a [THEN conjunct2, THEN conjunct2] lat by (rule mp)
  have 2: "\<forall>ch\<in>set (py ''cs/2015/042''). \<not> py_upper ch"
    using b [THEN conjunct2, THEN conjunct2] lat by (rule mp)
  have 3: "\<not> list_ex py_upper (py ''ravi kumar'')" using 1 by (simp add: list_ex_iff)
  have 4: "\<not> list_ex py_upper (py ''cs/2015/042'')" using 2 by (simp add: list_ex_iff)
  show ?thesis using card_pass g card_parse n r 3 4 by (intro conjI) assumption+
qed







section \<open>The loops over the pages\<close>



lemma fallback_loop_texts:
  "fallback_loop (map Inr texts) full_text = Inr (full_text @ concat (map (\<lambda>t. t @ [Lat nl]) texts))"
  by (induction texts arbitrary: full_text) simp_all

lemma fallback_loop_Inr:
  "fallback_loop pages full_text = Inr out \<Longrightarrow>
     \<exists>texts. pages = map Inr texts \<and> out = full_text @ concat (map (\<lambda>t. t @ [Lat nl]) texts)"
proof (induction pages arbitrary: full_text)
  case Nil
  then show ?case by simp
next
  case (Cons page pages)
  from Cons.prems obtain t where t: "page = Inr t"
    and r: "fallback_loop pages (full_text @ t @ [Lat nl]) = Inr out"
    by (cases page) auto
  from Cons.IH [OF r] obtain ts where "pages = map Inr ts"
    "out = (full_text @ t @ [Lat nl]) @ concat (map (\<lambda>t. t @ [Lat nl]) ts)" by blast
  with t show ?case by (intro exI [of _ "t # ts"]) simp
qed

lemma fallback_loop_Inl:
  "fallback_loop pages full_text = Inl e \<Longrightarrow>
     \<exists>texts later. pages = map Inr texts @ Inl e # later"
proof (induction pages arbitrary: full_text)
  case Nil
  then show ?case by simp
next
  case (Cons page pages)
  show ?case
  proof (cases page)
    case (Inl e')
    with Cons.prems have "e' = e" by simp
    with Inl have "page # pages = map Inr [] @ Inl e # pages" by simp
    then show ?thesis by blast
  next
    case (Inr t)
    with Cons.prems have "fallback_loop pages (full_text @ t @ [Lat nl]) = Inl e" by simp
    from Cons.IH [OF this] obtain ts later where "pages = map Inr ts @ Inl e # later" by blast
    with Inr have "page # pages = map Inr (t # ts) @ Inl e # later" by simp
    then show ?thesis by blast
  qed
qed


lemma fallback_texts:
  assumes "read_file files file_path = Inr file" and "pdf_reader E file = Inr (map Inr texts)"
  shows "extract_from_pdf_fallback E file_path files =
           Inr (strip (concat (map (\<lambda>t. t @ [Lat nl]) texts)), 0.8)"
  using assms by (simp add: extract_from_pdf_fallback_def and_then_def fallback_loop_texts)

lemma fallback_Inr:
  assumes "extract_from_pdf_fallback E file_path files = Inr (text, confidence)"
  shows "confidence = 0.8 \<and>
         (\<exists>file texts. read_file files file_path = Inr file \<and> pdf_reader E file = Inr (map Inr texts) \<and>
            text = strip (concat (map (\<lambda>t. t @ [Lat nl]) texts)))"
proof -
  from assms obtain b where f: "read_file files file_path = Inr b"
    by (cases "read_file files file_path") (simp_all add: extract_from_pdf_fallback_def and_then_def)
  from assms f obtain pages where p: "pdf_reader E b = Inr pages"
    by (cases "pdf_reader E b") (simp_all add: extract_from_pdf_fallback_def and_then_def)
  from assms f p obtain out where l: "fallback_loop pages [] = Inr out"
    by (cases "fallback_loop pages []") (simp_all add: extract_from_pdf_fallback_def and_then_def)
  from assms f p l have r: "text = strip out" "confidence = 0.8"
    by (simp_all add: extract_from_pdf_fallback_def and_then_def)
  from fallback_loop_Inr [OF l] obtain texts where
    "pages = map Inr texts" "out = concat (map (\<lambda>t. t @ [Lat nl]) texts)" by auto
  with f p r show ?thesis by auto
qed

lemma fallback_Inl:
  "extract_from_pdf_fallback E file_path files = Inl e \<longleftrightarrow>
     read_file files file_path = Inl e \<or>
     (\<exists>file. read_file files file_path = Inr file \<and>
        (pdf_reader E file = Inl e \<or>
         (\<exists>texts later. pdf_reader E file = Inr (map Inr texts @ Inl e # later))))"
proof (cases "read_file files file_path")
  case (Inl e1)
  then show ?thesis by (simp add: extract_from_pdf_fallback_def and_then_def)
next
  case f: (Inr b)
  show ?thesis
  proof (cases "pdf_reader E b")
    case (Inl e2)
    with f show ?thesis by (simp add: extract_from_pdf_fallback_def and_then_def)
  next
    case p: (Inr pages)
    have eq: "extract_from_pdf_fallback E file_path files = Inl e \<longleftrightarrow> fallback_loop pages [] = Inl e"
      using f p by (cases "fallback_loop pages []") (simp_all add: extract_from_pdf_fallback_def and_then_def)
    have "fallback_loop pages [] = Inl e \<longleftrightarrow> (\<exists>texts later. pages = map Inr texts @ Inl e # later)"
    proof
      assume "fallback_loop pages [] = Inl e"
      then show "\<exists>texts later. pages = map Inr texts @ Inl e # later" by (rule fallback_loop_Inl)
    next
      assume "\<exists>texts later. pages = map Inr texts @ Inl e # later"
      then obtain texts later where pg: "pages = map Inr texts @ Inl e # later" by blast
      have "fallback_loop (map Inr texts @ Inl e # later) acc = Inl e" for acc
        by (induction texts arbitrary: acc) simp_all
      with pg show "fallback_loop pages [] = Inl e" by simp
    qed
    with eq f p show ?thesis by simp
  qed
qed

section \<open>Claims about PDF and image extraction\<close>

text \<open>
  The arithmetic of the confidences is that of the real numbers: the theorems give the
  formula the code evaluates, in the order in which it adds, and say nothing of the rounding
  of Python's floats.
\<close>

subsection \<open>A PDF with a text layer on every page\<close>

text \<open>A document of two pages whose text layers are "Hello" and "World", each ending in
  a newline as PyMuPDF gives them.\<close>

definition hello_path :: path where
  "hello_path = [''..'', ''uploads'', ''letter.pdf'']"

definition hello_files :: fs where
  "hello_files = [hello_path \<mapsto> [37, 80, 68, 70]]"

definition hello_page :: "pystr \<Rightarrow> fpage" where
  "hello_page t = \<lparr>get_text = Inr t, pixmap_png = Inr []\<rparr>"

definition hello_env :: env where
  "hello_env = \<lparr>decode_cv2 = (\<lambda>b. Some b), decode_pil = Inr, cvt_rgb2bgr = Inr, cvt_gray = Inr,
     denoise = Inr, threshold = Inr, readtext = (\<lambda>r. Inr []),
     fitz_open = (\<lambda>b. Inr [hello_page (py ''Hello'' @ [Lat nl]), hello_page (py ''World'' @ [Lat nl])]),
     pdf_reader = (\<lambda>b. Inr []), writable = (\<lambda>p. True)\<rparr>"

lemma hello_strip:
  "strip (concat (map (\<lambda>t. t @ [Lat nl]) [py ''Hello'' @ [Lat nl], py ''World'' @ [Lat nl]])) =
     py ''Hello'' @ [Lat nl, Lat nl] @ py ''World''"
  "strip (py ''Hello'' @ [Lat nl]) \<noteq> []"
  "strip (py ''World'' @ [Lat nl]) \<noteq> []"
  by code_simp+

lemma hello_pages:
  "read_file hello_files hello_path = Inr [37, 80, 68, 70]"
  "fitz_open hello_env [37, 80, 68, 70] =
     Inr [hello_page (py ''Hello'' @ [Lat nl]), hello_page (py ''World'' @ [Lat nl])]"
  "map get_text [hello_page (py ''Hello'' @ [Lat nl]), hello_page (py ''World'' @ [Lat nl])] =
     map Inr [py ''Hello'' @ [Lat nl], py ''World'' @ [Lat nl]]"
  by (simp_all add: read_file_def hello_files_def hello_env_def hello_page_def)




subsection \<open>The fallback\<close>

text \<open>The same file when PyMuPDF cannot open it and PyPDF2 can.\<close>

definition broken_env :: env where
  "broken_env = \<lparr>decode_cv2 = (\<lambda>b. Some b), decode_pil = Inr, cvt_rgb2bgr = Inr, cvt_gray = Inr,
     denoise = Inr, threshold = Inr, readtext = (\<lambda>r. Inr []),
     fitz_open = (\<lambda>b. Inl (LibError ''FileDataError'')),
     pdf_reader = (\<lambda>b. Inr [Inr (py ''Hello'' @ [Lat nl]), Inr (py ''World'' @ [Lat nl])]),
     writable = (\<lambda>p. True)\<rparr>"

lemma broken_primary:
  "extract_from_pdf_primary broken_env hello_path hello_files = (Inl (LibError ''FileDataError''), hello_files)"
  by (simp add: extract_from_pdf_primary_def and_then_def read_file_def hello_files_def broken_env_def)

lemma broken_pages:
  "pdf_reader broken_env [37, 80, 68, 70] = Inr (map Inr [py ''Hello'' @ [Lat nl], py ''World'' @ [Lat nl]])"
  by (simp add: broken_env_def)

text \<open>
  C4. When the \<open>try\<close> block of \<open>_extract_from_pdf\<close> raises, the result is that of one call of
  \<open>_extract_from_pdf_fallback\<close> on the files as the block left them, and the files are not
  touched again. A result of the fallback has confidence 0.8 and its text is the texts PyPDF2
  extracts from the pages, each followed by a newline, in page order, stripped as a whole, and
  this is what the fallback returns whenever the file can be read and every page yields its
  text. The fallback raises \<open>e'\<close> exactly when opening the file, \<open>PdfReader\<close> or the first page
  that fails raises \<open>e'\<close>, and that exception is then the result of \<open>_extract_from_pdf\<close>.
\<close>

theorem pdf_fallback_once:
  assumes "extract_from_pdf_primary E file_path files = (Inl e, files')"
  shows "extract_from_pdf E file_path files = (extract_from_pdf_fallback E file_path files', files') \<and>
         (\<forall>text confidence. extract_from_pdf_fallback E file_path files' = Inr (text, confidence) \<longrightarrow>
            confidence = 0.8 \<and>
            (\<exists>b texts. read_file files' file_path = Inr b \<and> pdf_reader E b = Inr (map Inr texts) \<and>
               text = strip (concat (map (\<lambda>t. t @ [Lat nl]) texts)))) \<and>
         (\<forall>b texts. read_file files' file_path = Inr b \<and> pdf_reader E b = Inr (map Inr texts) \<longrightarrow>
            extract_from_pdf_fallback E file_path files' =
              Inr (strip (concat (map (\<lambda>t. t @ [Lat nl]) texts)), 0.8)) \<and>
         (\<forall>e'. extract_from_pdf_fallback E file_path files' = Inl e' \<longleftrightarrow>
            read_file files' file_path = Inl e' \<or>
            (\<exists>b. read_file files' file_path = Inr b \<and>
               (pdf_reader E b = Inl e' \<or>
                (\<exists>texts later. pdf_reader E b = Inr (map Inr texts @ Inl e' # later)))))"
proof -
  have A: "extract_from_pdf E file_path files = (extract_from_pdf_fallback E file_path files', files')"
    using assms by (simp add: extract_from_pdf_def)
  have B: "\<forall>text confidence. extract_from_pdf_fallback E file_path files' = Inr (text, confidence) \<longrightarrow>
            confidence = 0.8 \<and>
            (\<exists>b texts. read_file files' file_path = Inr b \<and> pdf_reader E b = Inr (map Inr texts) \<and>
               text = strip (concat (map (\<lambda>t. t @ [Lat nl]) texts)))"
    using fallback_Inr by blast
  have C: "\<forall>b texts. read_file files' file_path = Inr b \<and> pdf_reader E b = Inr (map Inr texts) \<longrightarrow>
            extract_from_pdf_fallback E file_path files' =
              Inr (strip (concat (map (\<lambda>t. t @ [Lat nl]) texts)), 0.8)"
    using fallback_texts by blast
  have D: "\<forall>e'. extract_from_pdf_fallback E file_path files' = Inl e' \<longleftrightarrow>
            read_file files' file_path = Inl e' \<or>
            (\<exists>b. read_file files' file_path = Inr b \<and>
               (pdf_reader E b = Inl e' \<or>
                (\<exists>texts later. pdf_reader E b = Inr (map Inr texts @ Inl e' # later))))"
    using fallback_Inl by blast
  from A B C D show ?thesis by (intro conjI)
qed

theorem pdf_fallback_once_witness:
  "extract_from_pdf_primary broken_env hello_path hello_files =
     (Inl (LibError ''FileDataError''), hello_files) \<and>
   extract_from_pdf broken_env hello_path hello_files =
     (Inr (py ''Hello'' @ [Lat nl, Lat nl] @ py ''World'', 0.8), hello_files)"
proof -
  note fb = pdf_fallback_once [OF broken_primary]
  have "extract_from_pdf_fallback broken_env hello_path hello_files =
          Inr (py ''Hello'' @ [Lat nl, Lat nl] @ py ''World'', 0.8)"
    using fb [THEN conjunct2, THEN conjunct2, THEN conjunct1, rule_format,
              OF conjI, OF hello_pages(1) broken_pages]
    unfolding hello_strip(1) .
  with fb [THEN conjunct1] broken_primary show ?thesis by simp
qed

subsection \<open>The image that only PIL can decode\<close>

text \<open>A GIF image stored as \<open>scan.png\<close>: an OpenCV without a GIF decoder returns \<open>None\<close>, PIL
  opens it as a palette image, and \<open>cv2.cvtColor(..., cv2.COLOR_RGB2BGR)\<close> raises on the
  two-dimensional array. In the second environment the conversion succeeds and denoising
  raises.\<close>

definition gif_path :: path where
  "gif_path = [''..'', ''uploads'', ''scan.png'']"

definition gif_bytes :: bytes where
  "gif_bytes = [71, 73, 70, 56]"

definition gif_pixels :: raster where
  "gif_pixels = [0, 1, 1, 0]"

definition gif_files :: fs where
  "gif_files = [gif_path \<mapsto> gif_bytes]"

definition gif_env :: env where
  "gif_env = \<lparr>decode_cv2 = (\<lambda>b. None), decode_pil = (\<lambda>b. Inr gif_pixels),
     cvt_rgb2bgr = (\<lambda>img. Inl (LibError ''cv2.error'')), cvt_gray = Inr,
     denoise = Inr, threshold = Inr, readtext = (\<lambda>r. Inr []),
     fitz_open = (\<lambda>b. Inr []), pdf_reader = (\<lambda>b. Inr []), writable = (\<lambda>p. True)\<rparr>"

definition big_env :: env where
  "big_env = \<lparr>decode_cv2 = (\<lambda>b. None), decode_pil = (\<lambda>b. Inr gif_pixels),
     cvt_rgb2bgr = Inr, cvt_gray = Inr,
     denoise = (\<lambda>img. Inl (LibError ''cv2.error'')), threshold = Inr, readtext = (\<lambda>r. Inr []),
     fitz_open = (\<lambda>b. Inr []), pdf_reader = (\<lambda>b. Inr []), writable = (\<lambda>p. True)\<rparr>"

text \<open>
  C5 (the code at the failing input). PIL has decoded the image and a later step raises;
  the handler reads the file again with \<open>cv2.imread\<close> only, which cannot decode it, and
  \<open>_preprocess_image\<close> returns the empty array and not the decoded image.
\<close>

theorem decoded_image_lost:
  "pil_open gif_env gif_files gif_path = Inr gif_pixels \<and> gif_pixels \<noteq> [] \<and>
   preprocess_steps gif_env gif_files gif_path = Inl (LibError ''cv2.error'') \<and>
   preprocess_image gif_env gif_files gif_path = [] \<and>
   and_then (pil_open big_env gif_files gif_path) (cvt_rgb2bgr big_env) = Inr gif_pixels \<and>
   preprocess_steps big_env gif_files gif_path = Inl (LibError ''cv2.error'') \<and>
   preprocess_image big_env gif_files gif_path = []"
  by (simp add: preprocess_image_def preprocess_steps_def pil_open_def imread_def read_file_def
        and_then_def gif_env_def big_env_def gif_files_def gif_pixels_def)

subsection \<open>The temporary file of a scanned page\<close>

text \<open>A PDF of one page without a text layer, on whose rendering \<open>readtext\<close> raises; PyPDF2
  reads the file and finds no text.\<close>

definition scan_path :: path where
  "scan_path = [''..'', ''uploads'', ''scan.pdf'']"

definition scan_png :: bytes where
  "scan_png = [137, 80, 78, 71]"

definition scan_files :: fs where
  "scan_files = [scan_path \<mapsto> [37, 80, 68, 70]]"

definition scan_env :: env where
  "scan_env = \<lparr>decode_cv2 = (\<lambda>b. Some b), decode_pil = Inr, cvt_rgb2bgr = Inr, cvt_gray = Inr,
     denoise = Inr, threshold = Inr, readtext = (\<lambda>r. Inl (LibError ''RuntimeError'')),
     fitz_open = (\<lambda>b. Inr [\<lparr>get_text = Inr [], pixmap_png = Inr scan_png\<rparr>]),
     pdf_reader = (\<lambda>b. Inr [Inr []]), writable = (\<lambda>p. True)\<rparr>"

lemma scan_temp:
  "temp_img_path scan_path 0 = [''..'', ''uploads'', ''temp_page_0.png'']"
  by code_simp

lemma strip_blank:
  "strip [] = []" "strip [Lat nl] = []"
  by code_simp+

text \<open>
  C6 (the code at the failing input). Before the call there is no file
  \<open>../uploads/temp_page_0.png\<close>. OCR of the page raises, the \<open>try\<close> block ends before
  \<open>temp_img_path.unlink\<close>, the fallback returns, and the temporary file is still there when
  \<open>_extract_from_pdf\<close> has returned.
\<close>

theorem temp_page_left_behind:
  "scan_files [''..'', ''uploads'', ''temp_page_0.png''] = None \<and>
   extract_from_pdf_primary scan_env scan_path scan_files =
     (Inl (LibError ''RuntimeError''), scan_files([''..'', ''uploads'', ''temp_page_0.png''] \<mapsto> scan_png)) \<and>
   extract_from_pdf scan_env scan_path scan_files =
     (Inr ([], 0.8), scan_files([''..'', ''uploads'', ''temp_page_0.png''] \<mapsto> scan_png)) \<and>
   snd (extract_from_pdf scan_env scan_path scan_files) [''..'', ''uploads'', ''temp_page_0.png''] =
     Some scan_png"
proof -
  have none: "scan_files [''..'', ''uploads'', ''temp_page_0.png''] = None"
    by (simp add: scan_files_def scan_path_def)
  have doc: "and_then (read_file scan_files scan_path) (fitz_open scan_env) =
               Inr [\<lparr>get_text = Inr [], pixmap_png = Inr scan_png\<rparr>]"
    by (simp add: and_then_def read_file_def scan_files_def scan_env_def)
  have written: "write_file scan_env scan_files (temp_img_path scan_path 0) scan_png =
               Inr (scan_files([''..'', ''uploads'', ''temp_page_0.png''] \<mapsto> scan_png))"
    by (simp add: write_file_def scan_temp scan_env_def)
  have ocr: "ocr_image scan_env files (temp_img_path scan_path 0) = Inl (LibError ''RuntimeError'')" for files
    by (simp add: ocr_image_def scan_env_def)
  have "pages_loop scan_env scan_path [\<lparr>get_text = Inr [], pixmap_png = Inr scan_png\<rparr>] 0 ([], 0, 0) scan_files =
          (Inl (LibError ''RuntimeError''), scan_files([''..'', ''uploads'', ''temp_page_0.png''] \<mapsto> scan_png))"
    by (simp add: strip_blank written ocr)
  with doc have primary: "extract_from_pdf_primary scan_env scan_path scan_files =
     (Inl (LibError ''RuntimeError''), scan_files([''..'', ''uploads'', ''temp_page_0.png''] \<mapsto> scan_png))"
    by (simp add: extract_from_pdf_primary_def)
  have "extract_from_pdf_fallback scan_env scan_path
          (scan_files([''..'', ''uploads'', ''temp_page_0.png''] \<mapsto> scan_png)) = Inr ([], 0.8)"
    by (simp add: extract_from_pdf_fallback_def and_then_def read_file_def strip_blank
          scan_env_def scan_files_def scan_path_def)
  with primary have whole: "extract_from_pdf scan_env scan_path scan_files =
     (Inr ([], 0.8), scan_files([''..'', ''uploads'', ''temp_page_0.png''] \<mapsto> scan_png))"
    by (simp add: extract_from_pdf_def)
  from none primary whole show ?thesis by simp
qed

end
